theory Spec2Isabelle
  imports Main "HOL-Library.Log_Nat"
begin

section \<open>The compress operation of process_pdf (app.py)\<close>

text \<open>
  The handler \<open>process_pdf\<close> of app.py is glue over three libraries: pikepdf (structural
  inspection and the vector save), fitz (image extraction, replacement and the final
  save) and PIL (decoding, resizing and re-encoding of one image). The libraries are not
  part of the repository, so every call into them is a field of the record \<open>libs\<close>; each
  call may raise, which is the \<open>Inl\<close> of its result. What the handler itself computes
  (the classifier with its try/except, the choice of format, the DPI arithmetic in Python
  numbers, the two nested loops, the order of the saves and of the database write) is
  written out below, line by line.
\<close>

subsection \<open>Values\<close>

type_synonym bytes = "nat list"

text \<open>A raised Python exception: one raised inside a library call (with the name of its
  class), or one of those the interpreter itself raises in this handler.\<close>

datatype exn =
    LibraryError string
  | UnboundLocalError string
  | OverflowError
  | ZeroDivisionError

text \<open>
  A Python number as \<open>image.info["dpi"]\<close> holds it. PIL stores an int (the JFIF density
  of a JPEG), a float (the resolution of a PNG) or an IFDRational (the resolution tags of
  TIFF and EXIF), whose arithmetic is that of the \<open>fractions.Fraction\<close> it wraps. The
  type decides how lines 140--142 compute: \<open>/\<close> and \<open>*\<close> on ints and floats give floats,
  on a Fraction they are exact. A float is given by its (finite) value.
\<close>

datatype number =
    PyInt int
  | PyFloat rat
  | PyFraction rat

definition number_value :: "number \<Rightarrow> rat" where
  "number_value x = (case x of PyInt n \<Rightarrow> of_int n | PyFloat r \<Rightarrow> r | PyFraction q \<Rightarrow> q)"

text \<open>A PIL image as the handler reads it: \<open>image.mode\<close>, \<open>image.info.get("dpi")\<close> (absent,
  or a pair of numbers), \<open>image.width\<close>, \<open>image.height\<close>; the pixels are opaque.\<close>

record image =
  img_mode :: string
  img_dpi :: "(number \<times> number) option"
  img_width :: int
  img_height :: int
  img_pixels :: bytes

text \<open>The keyword arguments of the two \<open>image.save\<close> calls (lines 146 and 148).\<close>

datatype save_format =
    TIFF string
  | JPEG nat bool

text \<open>The keyword arguments of \<open>pdf.save\<close> (lines 112 and 118).\<close>

datatype compression_level = CompressionLevel_default

record save_args =
  arg_optimize_streams :: bool
  arg_compression :: "compression_level option"

record ('pdf, 'page, 'doc) libs =
  pikepdf_open :: "bytes \<Rightarrow> exn + 'pdf"
  pdf_pages :: "'pdf \<Rightarrow> exn + 'page list"
  page_has_contents :: "'page \<Rightarrow> exn + bool"
  pdf_save :: "'pdf \<Rightarrow> save_args \<Rightarrow> (exn + bytes) \<times> 'pdf"
  fitz_open :: "bytes \<Rightarrow> exn + 'doc"
  doc_len :: "'doc \<Rightarrow> nat"
  doc_get_images :: "'doc \<Rightarrow> nat \<Rightarrow> exn + nat list"
  doc_extract_image :: "'doc \<Rightarrow> nat \<Rightarrow> exn + bytes"
  doc_update_image :: "'doc \<Rightarrow> nat \<Rightarrow> bytes \<Rightarrow> exn + 'doc"
  doc_save :: "'doc \<Rightarrow> nat \<Rightarrow> bool \<Rightarrow> exn + bytes"
  Image_open :: "bytes \<Rightarrow> exn + image"
  image_resize :: "image \<Rightarrow> int \<times> int \<Rightarrow> exn + image"
  image_save :: "image \<Rightarrow> save_format \<Rightarrow> exn + bytes"

text \<open>
  \<^item> \<open>pikepdf_open\<close>, \<open>fitz_open\<close>: \<open>pikepdf.open(pdf_path)\<close>, \<open>fitz.open(pdf_path)\<close>, on
    the bytes that line 65 wrote at \<open>pdf_path\<close>.
  \<^item> \<open>pdf_pages\<close>: the pages that iterating \<open>pdf.pages\<close> yields.
  \<^item> \<open>page_has_contents\<close>: the truth value of \<open>page.get("/Contents")\<close>.
  \<^item> \<open>pdf_save\<close>: \<open>pdf.save(buffer, ...)\<close> followed by reading the buffer; the Pdf
    object is mutable, so the call also returns the object as it is afterwards.
  \<^item> \<open>doc_len\<close>: \<open>len(doc)\<close>; \<open>doc_get_images\<close>: the xrefs \<open>img[0]\<close> of
    \<open>doc[page_index].get_images(full=True)\<close>; \<open>doc_extract_image\<close>:
    \<open>doc.extract_image(xref)["image"]\<close>; \<open>doc_update_image\<close>:
    \<open>doc.update_image(xref, stream=...)\<close>, which changes the document;
    \<open>doc_save\<close>: \<open>doc.save(buffer, garbage=g, deflate=d)\<close> and the buffer's bytes.
  \<^item> \<open>Image_open\<close>, \<open>image_resize\<close> (with the LANCZOS filter), \<open>image_save\<close>: PIL.
\<close>

subsection \<open>Python floats\<close>

text \<open>
  For an int or a float \<open>dpi\<close>, line 140 divides in floating point and lines 141--142
  multiply an int by that float and truncate. A Python float is an IEEE 754 binary64
  number: every operation returns the
  exact result rounded to the nearest number with a 53-bit significand, ties to the even
  significand, with gradual underflow below \<open>2 powi (- 1022)\<close>. \<open>fl\<close> is that rounding
  on the rationals. Overflow to infinity is not part of \<open>fl\<close>: the handler rounds the
  quotient 150/dpi for a dpi above 200, an int (where Python raises OverflowError, see
  \<open>float_of_int\<close>) and the product of the two, which is smaller than the int.
\<close>

text \<open>The exponent \<open>e\<close> of a positive \<open>x\<close>: \<open>2 powi e \<le> x < 2 powi (e + 1)\<close>.\<close>

definition flog2 :: "rat \<Rightarrow> int" where
  "flog2 x = (let k = bitlen (fst (quotient_of x)) - bitlen (snd (quotient_of x))
              in if 2 powi k \<le> x then k else k - 1)"

text \<open>Rounding to the nearest integer, a tie to the even one.\<close>

definition round_half_even :: "rat \<Rightarrow> int" where
  "round_half_even y = (let n = \<lfloor>y\<rfloor>; r = y - of_int n
     in if r < 1 / 2 then n else if 1 / 2 < r then n + 1 else if even n then n else n + 1)"

text \<open>Rounding a positive number to 53 significant bits, or to a multiple of
  \<open>2 powi (- 1074)\<close> in the subnormal range.\<close>

definition fl_pos :: "rat \<Rightarrow> rat" where
  "fl_pos x = (let s = 52 - max (flog2 x) (- 1022)
               in of_int (round_half_even (x * 2 powi s)) * 2 powi (- s))"

definition fl :: "rat \<Rightarrow> rat" where
  "fl x = (if x = 0 then 0 else if x < 0 then - fl_pos (- x) else fl_pos x)"

text \<open>\<open>float(n)\<close> for an int: rounded, and OverflowError beyond the largest float.\<close>

definition float_of_int :: "int \<Rightarrow> exn + rat" where
  "float_of_int n = (if 2 ^ 1024 \<le> \<bar>fl (of_int n)\<bar> then Inl OverflowError else Inr (fl (of_int n)))"

text \<open>\<open>int(x)\<close> for a float: truncation towards zero.\<close>

definition int_of_float :: "rat \<Rightarrow> int" where
  "int_of_float x = (if 0 \<le> x then \<lfloor>x\<rfloor> else \<lceil>x\<rceil>)"

subsection \<open>Python arithmetic on numbers\<close>

text \<open>
  \<open>n / d\<close> for an int \<open>n\<close>, as at line 140. By an int: the correctly rounded float of
  the quotient (OverflowError beyond the largest float). By a float: \<open>n\<close> is converted
  and the floats are divided; a quotient beyond the largest float would be an infinity,
  which does not arise for a divisor above 200 as at line 140. By a Fraction: the exact
  quotient, a Fraction. Division by zero raises.
\<close>

definition int_truediv :: "int \<Rightarrow> number \<Rightarrow> exn + number" where
  "int_truediv n d =
     (if number_value d = 0 then Inl ZeroDivisionError
      else
        (case d of
           PyInt k \<Rightarrow>
             if 2 ^ 1024 \<le> \<bar>fl (of_int n / of_int k)\<bar> then Inl OverflowError
             else Inr (PyFloat (fl (of_int n / of_int k)))
         | PyFloat r \<Rightarrow>
             (case float_of_int n of
                Inl e \<Rightarrow> Inl e
              | Inr x \<Rightarrow> Inr (PyFloat (fl (x / r))))
         | PyFraction q \<Rightarrow> Inr (PyFraction (of_int n / q))))"

text \<open>\<open>n * x\<close> for an int \<open>n\<close>, as at lines 141 and 142: an int by an int, a float by a
  float (after the conversion of \<open>n\<close>), an exact Fraction by a Fraction.\<close>

definition int_times :: "int \<Rightarrow> number \<Rightarrow> exn + number" where
  "int_times n x =
     (case x of
        PyInt k \<Rightarrow> Inr (PyInt (n * k))
      | PyFloat f \<Rightarrow>
          (case float_of_int n of
             Inl e \<Rightarrow> Inl e
           | Inr y \<Rightarrow> Inr (PyFloat (fl (y * f))))
      | PyFraction q \<Rightarrow> Inr (PyFraction (of_int n * q)))"

text \<open>\<open>int(x)\<close>: truncation towards zero, of a float as of a Fraction.\<close>

definition py_int :: "number \<Rightarrow> int" where
  "py_int x = (case x of PyInt n \<Rightarrow> n | PyFloat r \<Rightarrow> int_of_float r
               | PyFraction q \<Rightarrow> int_of_float q)"

subsection \<open>Lines 102--104: the constants\<close>

definition DPI_THRESHOLD :: int where "DPI_THRESHOLD = 200"
definition TARGET_DPI :: int where "TARGET_DPI = 150"
definition JPEG_QUALITY :: nat where "JPEG_QUALITY = 85"

subsection \<open>Lines 105--109: the classifier\<close>

text \<open>\<open>any(... for page in pages)\<close>: left to right, stops at the first true value, and an
  exception raised on the way is raised by \<open>any\<close>.\<close>

fun any_truthy :: "('a \<Rightarrow> exn + bool) \<Rightarrow> 'a list \<Rightarrow> exn + bool" where
  "any_truthy f [] = Inr False"
| "any_truthy f (x # xs) =
     (case f x of Inl e \<Rightarrow> Inl e | Inr b \<Rightarrow> if b then Inr True else any_truthy f xs)"

text \<open>The body of the \<open>try\<close>: its outcome, and the variable \<open>pdf\<close> (bound once
  \<open>pikepdf.open\<close> has returned).\<close>

definition inspect_pdf :: "('pdf, 'page, 'doc) libs \<Rightarrow> bytes \<Rightarrow> (exn + bool) \<times> 'pdf option" where
  "inspect_pdf lib data =
     (case pikepdf_open lib data of
        Inl e \<Rightarrow> (Inl e, None)
      | Inr pdf \<Rightarrow>
          (case pdf_pages lib pdf of
             Inl e \<Rightarrow> (Inl e, Some pdf)
           | Inr ps \<Rightarrow> (any_truthy (page_has_contents lib) ps, Some pdf)))"

text \<open>The \<open>try\<close> with its bare \<open>except\<close>: \<open>has_vector\<close> and \<open>pdf\<close>.\<close>

definition classify :: "('pdf, 'page, 'doc) libs \<Rightarrow> bytes \<Rightarrow> bool \<times> 'pdf option" where
  "classify lib data =
     (case inspect_pdf lib data of
        (Inl e, pdf) \<Rightarrow> (False, pdf)
      | (Inr has_vector, pdf) \<Rightarrow> (has_vector, pdf))"

subsection \<open>Lines 110--121: the vector branch\<close>

definition vector_branch :: "('pdf, 'page, 'doc) libs \<Rightarrow> 'pdf \<Rightarrow> exn + bytes" where
  "vector_branch lib pdf =
     (case pdf_save lib pdf \<lparr>arg_optimize_streams = True, arg_compression = None\<rparr> of
        (Inl e, pdf1) \<Rightarrow> Inl e
      | (Inr output_bytes, pdf1) \<Rightarrow>
          (case pdf_save lib pdf1
                  \<lparr>arg_optimize_streams = True, arg_compression = Some CompressionLevel_default\<rparr> of
             (Inl e, pdf2) \<Rightarrow> Inl e
           | (Inr output_bytes, pdf2) \<Rightarrow> Inr output_bytes))"


subsection \<open>Lines 123--150: the raster branch\<close>

text \<open>Lines 132--137.\<close>

definition choose_compression :: "string \<Rightarrow> string" where
  "choose_compression mode =
     (if mode = ''1'' then ''CCITT'' else if mode = ''L'' then ''JPEG'' else ''JPEG'')"

text \<open>Lines 145--148: the arguments of \<open>image.save\<close>.\<close>

definition save_arguments :: "string \<Rightarrow> save_format" where
  "save_arguments compression =
     (if compression = ''CCITT'' then TIFF ''group4'' else JPEG JPEG_QUALITY True)"

text \<open>Line 138: \<open>image.info.get("dpi", (TARGET_DPI, TARGET_DPI))[0]\<close>.\<close>

definition effective_dpi :: "image \<Rightarrow> number" where
  "effective_dpi img =
     fst (case img_dpi img of None \<Rightarrow> (PyInt TARGET_DPI, PyInt TARGET_DPI) | Some d \<Rightarrow> d)"

text \<open>Lines 141 and 142: \<open>int(n * factor)\<close>, where \<open>n\<close> is an int and \<open>factor\<close> the float
  or the Fraction of line 140.\<close>

definition scale_dimension :: "int \<Rightarrow> number \<Rightarrow> exn + int" where
  "scale_dimension n factor =
     (case int_times n factor of
        Inl e \<Rightarrow> Inl e
      | Inr x \<Rightarrow> Inr (py_int x))"

text \<open>Lines 138--143. The comparison of line 139 is exact for every type of number.\<close>

definition downsample :: "('pdf, 'page, 'doc) libs \<Rightarrow> image \<Rightarrow> exn + image" where
  "downsample lib img =
     (let dpi = effective_dpi img
      in if number_value dpi > of_int DPI_THRESHOLD then
           (case int_truediv TARGET_DPI dpi of
              Inl e \<Rightarrow> Inl e
            | Inr factor \<Rightarrow>
                (case scale_dimension (img_width img) factor of
                   Inl e \<Rightarrow> Inl e
                 | Inr new_width \<Rightarrow>
                     (case scale_dimension (img_height img) factor of
                        Inl e \<Rightarrow> Inl e
                      | Inr new_height \<Rightarrow> image_resize lib img (new_width, new_height))))
         else Inr img)"

text \<open>Lines 128--150: the body of the inner loop, for one xref.\<close>

definition process_image :: "('pdf, 'page, 'doc) libs \<Rightarrow> 'doc \<Rightarrow> nat \<Rightarrow> exn + 'doc" where
  "process_image lib doc xref =
     (case doc_extract_image lib doc xref of
        Inl e \<Rightarrow> Inl e
      | Inr img_bytes \<Rightarrow>
          (case Image_open lib img_bytes of
             Inl e \<Rightarrow> Inl e
           | Inr img \<Rightarrow>
               (let compression = choose_compression (img_mode img)
                in case downsample lib img of
                     Inl e \<Rightarrow> Inl e
                   | Inr resized \<Rightarrow>
                       (case image_save lib resized (save_arguments compression) of
                          Inl e \<Rightarrow> Inl e
                        | Inr stream \<Rightarrow> doc_update_image lib doc xref stream))))"

text \<open>Line 127: the loop over the images of one page.\<close>

fun images_loop :: "('pdf, 'page, 'doc) libs \<Rightarrow> 'doc \<Rightarrow> nat list \<Rightarrow> exn + 'doc" where
  "images_loop lib doc [] = Inr doc"
| "images_loop lib doc (xref # images) =
     (case process_image lib doc xref of
        Inl e \<Rightarrow> Inl e
      | Inr doc' \<Rightarrow> images_loop lib doc' images)"

text \<open>Lines 124--126: the loop over \<open>range(len(doc))\<close>.\<close>

fun pages_loop :: "('pdf, 'page, 'doc) libs \<Rightarrow> 'doc \<Rightarrow> nat list \<Rightarrow> exn + 'doc" where
  "pages_loop lib doc [] = Inr doc"
| "pages_loop lib doc (page_index # rest) =
     (case doc_get_images lib doc page_index of
        Inl e \<Rightarrow> Inl e
      | Inr images \<Rightarrow>
          (case images_loop lib doc images of
             Inl e \<Rightarrow> Inl e
           | Inr doc' \<Rightarrow> pages_loop lib doc' rest))"

definition raster_branch :: "('pdf, 'page, 'doc) libs \<Rightarrow> bytes \<Rightarrow> exn + 'doc" where
  "raster_branch lib data =
     (case fitz_open lib data of
        Inl e \<Rightarrow> Inl e
      | Inr doc \<Rightarrow> pages_loop lib doc [0 ..< doc_len lib doc])"

subsection \<open>Lines 57--65, 99--101, 151--175: the handler, for the operation "compress"\<close>

text \<open>The uploaded file (\<open>request.files.get("file")\<close>): its name and its bytes.\<close>

record upload =
  up_filename :: string
  up_content :: bytes

text \<open>A row of the table FileRecord (lines 34--38); the database is the list of its rows.\<close>

record file_record =
  fr_id :: nat
  fr_filename :: string
  fr_operation :: string
  fr_file_data :: bytes

text \<open>What the handler returns: a body with a status (lines 62 and 159), or the template
  result.html with its arguments (lines 170--175).\<close>

datatype response =
    Plain string nat
  | Result_page string string nat

text \<open>\<open>s.replace(".pdf", new)\<close>: every occurrence, left to right.\<close>

fun replace_dot_pdf :: "string \<Rightarrow> string \<Rightarrow> string" where
  "replace_dot_pdf new [] = []"
| "replace_dot_pdf new (c # cs) =
     (if take 4 (c # cs) = ''.pdf'' then new @ replace_dot_pdf new (drop 3 cs)
      else c # replace_dot_pdf new cs)"

text \<open>The primary key that the database gives a new row.\<close>

definition next_id :: "file_record list \<Rightarrow> nat" where
  "next_id db = Suc (fold max (map fr_id db) 0)"

text \<open>
  Lines 110--150 as one step: the \<open>if\<close> on \<open>has_vector\<close>. Its value is the variable
  \<open>doc\<close> as the branch leaves it: the vector branch never assigns it (\<open>None\<close>), the
  raster branch binds it at line 123.
\<close>

definition compress_branches ::
  "('pdf, 'page, 'doc) libs \<Rightarrow> bytes \<Rightarrow> exn + 'doc option" where
  "compress_branches lib data =
     (case classify lib data of
        (has_vector, pdf) \<Rightarrow>
          if has_vector then
            (case pdf of
               None \<Rightarrow> Inl (UnboundLocalError ''pdf'')
             | Some p \<Rightarrow>
                 (case vector_branch lib p of
                    Inl e \<Rightarrow> Inl e
                  | Inr output_bytes \<Rightarrow> Inr None))
          else
            (case raster_branch lib data of
               Inl e \<Rightarrow> Inl e
             | Inr doc \<Rightarrow> Inr (Some doc)))"

text \<open>
  Lines 151--154 stand after the \<open>if\<close>/\<open>else\<close>, at the indentation of the \<open>if\<close>: both
  branches run them, and they read the variable \<open>doc\<close>.
\<close>

definition final_save :: "('pdf, 'page, 'doc) libs \<Rightarrow> 'doc option \<Rightarrow> exn + bytes" where
  "final_save lib doc =
     (case doc of
        None \<Rightarrow> Inl (UnboundLocalError ''doc'')
      | Some d \<Rightarrow> doc_save lib d 4 True)"

text \<open>The bytes that reach line 162, or the exception that leaves the handler.\<close>

definition compress_output :: "('pdf, 'page, 'doc) libs \<Rightarrow> bytes \<Rightarrow> exn + bytes" where
  "compress_output lib data =
     (case compress_branches lib data of
        Inl e \<Rightarrow> Inl e
      | Inr doc \<Rightarrow> final_save lib doc)"

text \<open>
  \<open>process_pdf\<close> when \<open>operation == "compress"\<close>. \<open>if not file\<close> holds for a missing
  file and for one with an empty name. Line 65 writes the upload at \<open>pdf_path\<close>, from
  where both libraries read it back at lines 106 and 123: the model hands the uploaded
  bytes to \<open>pikepdf_open\<close> and \<open>fitz_open\<close>. An exception leaves the handler (\<open>Inl\<close>)
  with the database as it was; lines 162--168 (\<open>db.session.add\<close> and \<open>commit\<close>) add
  one row, whose id the response carries.
\<close>

definition process_pdf_compress ::
  "('pdf, 'page, 'doc) libs \<Rightarrow> file_record list \<Rightarrow> upload option
     \<Rightarrow> (exn + response) \<times> file_record list" where
  "process_pdf_compress lib db file =
     (case file of
        None \<Rightarrow> (Inr (Plain ''No file uploaded'' 400), db)
      | Some f \<Rightarrow>
          if up_filename f = [] then (Inr (Plain ''No file uploaded'' 400), db)
          else
            (let output_filename = replace_dot_pdf ''_compressed.pdf'' (up_filename f)
             in case compress_output lib (up_content f) of
                  Inl e \<Rightarrow> (Inl e, db)
                | Inr output_bytes \<Rightarrow>
                    (let record = \<lparr>fr_id = next_id db, fr_filename = output_filename,
                                   fr_operation = ''compress'', fr_file_data = output_bytes\<rparr>
                     in (Inr (Result_page output_filename ''compress'' (fr_id record)),
                         db @ [record]))))"

subsection \<open>A small library to run the handler on\<close>

text \<open>
  A document of this library is a list of image streams, one image on each page, the
  image of page \<open>i\<close> having xref \<open>i\<close>; a stream is four numbers (mode, dpi as an
  int, width, height; a mode above 2 does not decode), and a file is the streams one after the other.
  Its PDF inspector takes each
  number of the file as a page: 7 is a page with contents, 9 a page whose inspection
  raises.
\<close>

fun chop4 :: "bytes \<Rightarrow> bytes list" where
  "chop4 (a # b # c # d # rest) = [a, b, c, d] # chop4 rest"
| "chop4 [] = []"
| "chop4 xs = [xs]"

definition toy_decode :: "bytes \<Rightarrow> exn + image" where
  "toy_decode s =
     (case s of
        [m, d, w, h] \<Rightarrow>
          if 2 < m then Inl (LibraryError ''UnidentifiedImageError'')
          else
            Inr \<lparr>img_mode = (if m = 0 then ''1'' else if m = 1 then ''L'' else ''RGB''),
                 img_dpi = (if d = 0 then None else Some (PyInt (int d), PyInt (int d))),
                 img_width = int w, img_height = int h, img_pixels = []\<rparr>
      | _ \<Rightarrow> Inl (LibraryError ''UnidentifiedImageError''))"

definition toy_resize :: "image \<Rightarrow> int \<times> int \<Rightarrow> exn + image" where
  "toy_resize img wh =
     (if fst wh \<le> 0 \<or> snd wh \<le> 0 then Inl (LibraryError ''ValueError'')
      else Inr (img\<lparr>img_width := fst wh, img_height := snd wh\<rparr>))"

definition toy_encode :: "image \<Rightarrow> save_format \<Rightarrow> exn + bytes" where
  "toy_encode img fmt =
     Inr [case fmt of TIFF c \<Rightarrow> 4 | JPEG q opt \<Rightarrow> q, 0, nat (img_width img), nat (img_height img)]"

definition toy_libs :: "(bytes, nat, bytes list) libs" where
  "toy_libs =
     \<lparr>pikepdf_open = (\<lambda>data. if data = [] then Inl (LibraryError ''PdfError'') else Inr data),
      pdf_pages = (\<lambda>pdf. Inr pdf),
      page_has_contents = (\<lambda>p. if p = 9 then Inl (LibraryError ''PdfError'') else Inr (p = 7)),
      pdf_save = (\<lambda>pdf args. (Inr (case arg_compression args of None \<Rightarrow> 1 # pdf | Some l \<Rightarrow> 2 # pdf), pdf)),
      fitz_open = (\<lambda>data. if data = [] then Inl (LibraryError ''FileDataError'') else Inr (chop4 data)),
      doc_len = length,
      doc_get_images = (\<lambda>doc i. if i < length doc then Inr [i] else Inl (LibraryError ''IndexError'')),
      doc_extract_image = (\<lambda>doc x. if x < length doc then Inr (doc ! x) else Inl (LibraryError ''ValueError'')),
      doc_update_image = (\<lambda>doc x s. if x < length doc then Inr (doc[x := s]) else Inl (LibraryError ''ValueError'')),
      doc_save = (\<lambda>doc g d. Inr (concat doc)),
      Image_open = toy_decode,
      image_resize = toy_resize,
      image_save = toy_encode\<rparr>"



text \<open>The small library with all the images on one page.\<close>

definition one_page_libs :: "(bytes, nat, bytes list) libs" where
  "one_page_libs =
     toy_libs\<lparr>doc_len := (\<lambda>doc. 1),
              doc_get_images := (\<lambda>doc i. if i = 0 then Inr [0 ..< length doc]
                                         else Inl (LibraryError ''IndexError''))\<rparr>"

text \<open>The small library with a document object that has no method \<open>update_image\<close>:
  the attribute lookup of line 150 raises.\<close>

definition no_update_image_libs :: "(bytes, nat, bytes list) libs" where
  "no_update_image_libs =
     toy_libs\<lparr>doc_update_image := (\<lambda>doc x s. Inl (LibraryError ''AttributeError''))\<rparr>"

text \<open>Some images.\<close>

definition img_318_at_212 :: image where
  "img_318_at_212 =
     \<lparr>img_mode = ''L'', img_dpi = Some (PyInt 212, PyInt 212), img_width = 318,
      img_height = 318, img_pixels = []\<rparr>"

definition img_318_at_212_rational :: image where
  "img_318_at_212_rational =
     \<lparr>img_mode = ''L'', img_dpi = Some (PyFraction 212, PyFraction 212), img_width = 318,
      img_height = 318, img_pixels = []\<rparr>"

definition img_3000_at_300 :: image where
  "img_3000_at_300 =
     \<lparr>img_mode = ''L'', img_dpi = Some (PyFloat 300, PyFloat 300), img_width = 3000,
      img_height = 2400, img_pixels = []\<rparr>"

definition img_no_dpi :: image where
  "img_no_dpi =
     \<lparr>img_mode = ''RGB'', img_dpi = None, img_width = 640, img_height = 480, img_pixels = []\<rparr>"

definition img_1_at_300 :: image where
  "img_1_at_300 =
     \<lparr>img_mode = ''L'', img_dpi = Some (PyInt 300, PyInt 300), img_width = 1,
      img_height = 1, img_pixels = []\<rparr>"

subsection \<open>Theorems\<close>

text \<open>
  C3. The format in which the raster branch re-encodes an image is a function of
  \<open>image.mode\<close> alone: mode \<open>"1"\<close> (bilevel) is saved as TIFF with group-4 compression,
  mode \<open>"L"\<close> (grayscale) and every other mode (colour) as JPEG with quality 85. The
  body of the inner loop saves the (possibly resized) image with exactly these arguments,
  chosen from the mode of the image as decoded.
\<close>

theorem format_by_mode:
  assumes "doc_extract_image lib doc xref = Inr img_bytes"
    and "Image_open lib img_bytes = Inr img"
    and "downsample lib img = Inr resized"
  shows "process_image lib doc xref =
           (case image_save lib resized
                   (if img_mode img = ''1'' then TIFF ''group4'' else JPEG 85 True) of
              Inl e \<Rightarrow> Inl e
            | Inr stream \<Rightarrow> doc_update_image lib doc xref stream)
         \<and> save_arguments (choose_compression (img_mode img)) =
           (if img_mode img = ''1'' then TIFF ''group4'' else JPEG 85 True)"
  using assms
  by (simp add: process_image_def save_arguments_def choose_compression_def JPEG_QUALITY_def)

theorem format_by_mode_witness:
  "doc_extract_image toy_libs [[0, 150, 100, 100]] 0 = Inr [0, 150, 100, 100]
   \<and> Image_open toy_libs [0, 150, 100, 100]
       = Inr \<lparr>img_mode = ''1'', img_dpi = Some (PyInt 150, PyInt 150), img_width = 100,
              img_height = 100, img_pixels = []\<rparr>
   \<and> downsample toy_libs
         \<lparr>img_mode = ''1'', img_dpi = Some (PyInt 150, PyInt 150), img_width = 100,
          img_height = 100, img_pixels = []\<rparr>
       = Inr \<lparr>img_mode = ''1'', img_dpi = Some (PyInt 150, PyInt 150), img_width = 100,
              img_height = 100, img_pixels = []\<rparr>
   \<and> process_image toy_libs [[0, 150, 100, 100]] 0 = Inr [[4, 0, 100, 100]]"
proof -
  let ?img = "\<lparr>img_mode = ''1'', img_dpi = Some (PyInt 150, PyInt 150), img_width = 100,
               img_height = 100, img_pixels = []\<rparr>"
  have a: "doc_extract_image toy_libs [[0, 150, 100, 100]] 0 = Inr [0, 150, 100, 100]"
    by (simp add: toy_libs_def)
  have b: "Image_open toy_libs [0, 150, 100, 100] = Inr ?img"
    by (simp add: toy_libs_def toy_decode_def)
  have c: "downsample toy_libs ?img = Inr ?img"
    by (simp add: downsample_def Let_def effective_dpi_def number_value_def DPI_THRESHOLD_def TARGET_DPI_def)
  show ?thesis
    using format_by_mode [OF a b c] a b c
    by (simp add: toy_libs_def toy_encode_def)
qed

lemma any_truthy_first:
  "any_truthy f xs = Inr True \<longleftrightarrow>
     (\<exists>i<length xs. f (xs ! i) = Inr True \<and> (\<forall>j<i. f (xs ! j) = Inr False))"
proof (induction xs)
  case Nil
  show ?case by simp
next
  case (Cons x xs)
  show ?case
  proof (cases "f x")
    case (Inl e)
    have "\<not> (\<exists>i<length (x # xs). f ((x # xs) ! i) = Inr True \<and> (\<forall>j<i. f ((x # xs) ! j) = Inr False))"
    proof
      assume "\<exists>i<length (x # xs). f ((x # xs) ! i) = Inr True \<and> (\<forall>j<i. f ((x # xs) ! j) = Inr False)"
      then obtain i where i: "f ((x # xs) ! i) = Inr True" "\<forall>j<i. f ((x # xs) ! j) = Inr False"
        by blast
      show False
      proof (cases i)
        case 0
        with i Inl show False by simp
      next
        case (Suc k)
        with i(2) have "f ((x # xs) ! 0) = Inr False" by blast
        with Inl show False by simp
      qed
    qed
    with Inl show ?thesis by simp
  next
    case (Inr b)
    show ?thesis
    proof (cases b)
      case True
      with Inr have "f ((x # xs) ! 0) = Inr True \<and> (\<forall>j<0. f ((x # xs) ! j) = Inr False)" by simp
      then have "\<exists>i<length (x # xs). f ((x # xs) ! i) = Inr True \<and> (\<forall>j<i. f ((x # xs) ! j) = Inr False)"
        by (intro exI [of _ 0]) simp
      with Inr True show ?thesis by simp
    next
      case False
      with Inr have fx: "f x = Inr False" by simp
      have "(\<exists>i<length xs. f (xs ! i) = Inr True \<and> (\<forall>j<i. f (xs ! j) = Inr False))
            \<longleftrightarrow> (\<exists>i<length (x # xs). f ((x # xs) ! i) = Inr True \<and> (\<forall>j<i. f ((x # xs) ! j) = Inr False))"
        (is "?L \<longleftrightarrow> ?R")
      proof
        assume ?L
        then obtain i where i: "i < length xs" "f (xs ! i) = Inr True" "\<forall>j<i. f (xs ! j) = Inr False"
          by blast
        have "\<forall>j<Suc i. f ((x # xs) ! j) = Inr False"
          using i(3) fx by (auto simp: nth_Cons split: nat.splits)
        with i(1,2) show ?R by (intro exI [of _ "Suc i"]) simp
      next
        assume ?R
        then obtain i where i: "i < length (x # xs)" "f ((x # xs) ! i) = Inr True"
          "\<forall>j<i. f ((x # xs) ! j) = Inr False" by blast
        from i(2) fx obtain k where k: "i = Suc k" by (cases i) auto
        have "\<forall>j<k. f (xs ! j) = Inr False"
        proof (intro allI impI)
          fix j assume "j < k"
          then have "Suc j < i" using k by simp
          with i(3) have "f ((x # xs) ! Suc j) = Inr False" by blast
          then show "f (xs ! j) = Inr False" by simp
        qed
        with i(1,2) k show ?L by (intro exI [of _ k]) simp
      qed
      with fx Cons.IH show ?thesis by simp
    qed
  qed
qed

lemma any_truthy_no_error:
  "\<forall>x\<in>set xs. \<exists>b. f x = Inr b \<Longrightarrow> any_truthy f xs = Inr (\<exists>x\<in>set xs. f x = Inr True)"
  by (induction xs) auto

lemma any_truthy_cases: "any_truthy f xs = Inr True \<or> any_truthy f xs = Inr False \<or> (\<exists>e. any_truthy f xs = Inl e)"
  by (cases "any_truthy f xs") auto

text \<open>
  C1. The classifier of the compress operation (lines 105--109). When the PDF opens, its
  pages enumerate and every page is inspected without an exception, \<open>has_vector\<close> is
  true (Vector) exactly when some page has a true \<open>/Contents\<close>, and false (Scanned)
  otherwise. The classifier never raises: its result is a truth value, and when the body
  of the \<open>try\<close> raises (the PDF cannot be opened, its pages cannot be enumerated, a page
  cannot be inspected) the result is false (Scanned). In full: \<open>has_vector\<close> is true
  exactly when a page with a true \<open>/Contents\<close> is reached before any exception.
\<close>

theorem classifier_vector_iff_and_total:
  "(pikepdf_open lib data = Inr pdf \<and> pdf_pages lib pdf = Inr ps
      \<and> (\<forall>p\<in>set ps. \<exists>b. page_has_contents lib p = Inr b)
      \<longrightarrow> fst (classify lib data) = (\<exists>p\<in>set ps. page_has_contents lib p = Inr True))
   \<and> (fst (inspect_pdf lib data) = Inl e \<longrightarrow> fst (classify lib data) = False)
   \<and> (pikepdf_open lib data = Inl e \<longrightarrow> classify lib data = (False, None))
   \<and> (pikepdf_open lib data = Inr pdf \<and> pdf_pages lib pdf = Inl e
        \<longrightarrow> classify lib data = (False, Some pdf))
   \<and> (fst (classify lib data) \<longleftrightarrow>
        (\<exists>pdf ps i. pikepdf_open lib data = Inr pdf \<and> pdf_pages lib pdf = Inr ps \<and> i < length ps
           \<and> page_has_contents lib (ps ! i) = Inr True
           \<and> (\<forall>j<i. page_has_contents lib (ps ! j) = Inr False)))"
proof (intro conjI impI)
  assume "pikepdf_open lib data = Inr pdf \<and> pdf_pages lib pdf = Inr ps
      \<and> (\<forall>p\<in>set ps. \<exists>b. page_has_contents lib p = Inr b)"
  then show "fst (classify lib data) = (\<exists>p\<in>set ps. page_has_contents lib p = Inr True)"
    by (simp add: classify_def inspect_pdf_def any_truthy_no_error)
next
  assume "fst (inspect_pdf lib data) = Inl e"
  then show "fst (classify lib data) = False"
    by (cases "inspect_pdf lib data") (simp add: classify_def)
next
  assume "pikepdf_open lib data = Inl e"
  then show "classify lib data = (False, None)"
    by (simp add: classify_def inspect_pdf_def)
next
  assume "pikepdf_open lib data = Inr pdf \<and> pdf_pages lib pdf = Inl e"
  then show "classify lib data = (False, Some pdf)"
    by (simp add: classify_def inspect_pdf_def)
next
  show "fst (classify lib data) \<longleftrightarrow>
        (\<exists>pdf ps i. pikepdf_open lib data = Inr pdf \<and> pdf_pages lib pdf = Inr ps \<and> i < length ps
           \<and> page_has_contents lib (ps ! i) = Inr True
           \<and> (\<forall>j<i. page_has_contents lib (ps ! j) = Inr False))"
  proof (cases "pikepdf_open lib data")
    case (Inl e)
    then show ?thesis by (simp add: classify_def inspect_pdf_def)
  next
    case open_ok: (Inr pdf)
    show ?thesis
    proof (cases "pdf_pages lib pdf")
      case (Inl e)
      with open_ok show ?thesis by (simp add: classify_def inspect_pdf_def)
    next
      case (Inr ps)
      have "fst (classify lib data) \<longleftrightarrow> any_truthy (page_has_contents lib) ps = Inr True"
        using open_ok Inr any_truthy_cases [of "page_has_contents lib" ps]
        by (auto simp: classify_def inspect_pdf_def)
      with open_ok Inr show ?thesis
        by (simp add: any_truthy_first)
    qed
  qed
qed

theorem classifier_witness:
  "fst (classify toy_libs [0, 7]) = True
   \<and> fst (inspect_pdf toy_libs [9, 7]) = Inl (LibraryError ''PdfError'')
   \<and> fst (classify toy_libs [9, 7]) = False
   \<and> classify toy_libs [] = (False, None)
   \<and> fst (classify toy_libs [0, 7, 9]) = True
   \<and> fst (classify toy_libs [0, 0]) = False"
proof -
  have o: "pikepdf_open toy_libs [0, 7] = Inr [0, 7] \<and> pdf_pages toy_libs [0, 7] = Inr [0, 7]
      \<and> (\<forall>p\<in>set [0, 7]. \<exists>b. page_has_contents toy_libs p = Inr b)"
    by (auto simp: toy_libs_def)
  have a: "fst (classify toy_libs [0, 7]) = True"
    using classifier_vector_iff_and_total [of toy_libs "[0, 7]" "[0, 7]" "[0, 7]", THEN conjunct1, rule_format, OF o]
    by (simp add: toy_libs_def)
  have i: "fst (inspect_pdf toy_libs [9, 7]) = Inl (LibraryError ''PdfError'')"
    by (simp add: inspect_pdf_def toy_libs_def)
  have b: "fst (classify toy_libs [9, 7]) = False"
    using classifier_vector_iff_and_total [of toy_libs "[9, 7]" _ _ "LibraryError ''PdfError''", THEN conjunct2, THEN conjunct1, rule_format, OF i] .
  have c: "classify toy_libs [] = (False, None)"
    by (simp add: classify_def inspect_pdf_def toy_libs_def)
  have d: "fst (classify toy_libs [0, 7, 9]) = True"
    by (simp add: classify_def inspect_pdf_def toy_libs_def)
  have e: "fst (classify toy_libs [0, 0]) = False"
    by (simp add: classify_def inspect_pdf_def toy_libs_def)
  from a i b c d e show ?thesis by simp
qed

lemma vector_compress_branches:
  assumes "fst (classify lib data)"
  shows "compress_branches lib data = Inr None \<or> (\<exists>e. compress_branches lib data = Inl e)"
proof -
  obtain hv pdf where c: "classify lib data = (hv, pdf)" by (cases "classify lib data")
  with assms have hv by simp
  with c show ?thesis
    by (cases pdf) (auto simp: compress_branches_def split: sum.splits)
qed

text \<open>
  C2 (what the code does instead). Lines 151--154 stand after the \<open>if\<close>/\<open>else\<close>, not
  inside the \<open>else\<close>, and read the variable \<open>doc\<close>, which only the raster branch binds.
  So for a document classified Vector the handler never returns a result and stores
  nothing: it raises the exception of a failed \<open>pdf.save\<close>, or, when both saves of the
  vector branch succeed, UnboundLocalError at line 152; the bytes of the vector save are
  dropped.
\<close>

theorem vector_document_always_raises:
  assumes "fst (classify lib (up_content f))" and "up_filename f \<noteq> []"
  shows "(\<exists>e. process_pdf_compress lib db (Some f) = (Inl e, db))
         \<and> (\<forall>p b. snd (classify lib (up_content f)) = Some p \<and> vector_branch lib p = Inr b
               \<longrightarrow> process_pdf_compress lib db (Some f) = (Inl (UnboundLocalError ''doc''), db))"
proof (intro conjI allI impI)
  from vector_compress_branches [OF assms(1)]
  have "\<exists>e. compress_output lib (up_content f) = Inl e"
    by (auto simp: compress_output_def final_save_def)
  with assms(2) show "\<exists>e. process_pdf_compress lib db (Some f) = (Inl e, db)"
    by (auto simp: process_pdf_compress_def)
next
  fix p b
  assume h: "snd (classify lib (up_content f)) = Some p \<and> vector_branch lib p = Inr b"
  obtain hv pdf where c: "classify lib (up_content f) = (hv, pdf)"
    by (cases "classify lib (up_content f)")
  with assms(1) h have "compress_branches lib (up_content f) = Inr None"
    by (simp add: compress_branches_def)
  then have "compress_output lib (up_content f) = Inl (UnboundLocalError ''doc'')"
    by (simp add: compress_output_def final_save_def)
  with assms(2) show "process_pdf_compress lib db (Some f) = (Inl (UnboundLocalError ''doc''), db)"
    by (simp add: process_pdf_compress_def)
qed

lemma toy_classify_7: "classify toy_libs [7] = (True, Some [7])"
  by (simp add: classify_def inspect_pdf_def toy_libs_def)

lemma toy_vector_7: "vector_branch toy_libs [7] = Inr [2, 7]"
  by (simp add: vector_branch_def toy_libs_def)

theorem vector_document_always_raises_witness:
  "fst (classify toy_libs (up_content \<lparr>up_filename = ''a.pdf'', up_content = [7]\<rparr>))
   \<and> up_filename \<lparr>up_filename = ''a.pdf'', up_content = [7]\<rparr> \<noteq> []
   \<and> snd (classify toy_libs [7]) = Some [7]
   \<and> vector_branch toy_libs [7] = Inr [2, 7]
   \<and> process_pdf_compress toy_libs [] (Some \<lparr>up_filename = ''a.pdf'', up_content = [7]\<rparr>)
       = (Inl (UnboundLocalError ''doc''), [])"
proof -
  let ?f = "\<lparr>up_filename = ''a.pdf'', up_content = [7]\<rparr>"
  have a: "fst (classify toy_libs (up_content ?f))" by (simp add: toy_classify_7)
  have b: "up_filename ?f \<noteq> []" by simp
  have c: "snd (classify toy_libs (up_content ?f)) = Some [7] \<and> vector_branch toy_libs [7] = Inr [2, 7]"
    by (simp add: toy_classify_7 toy_vector_7)
  from vector_document_always_raises [OF a b, of "[]", THEN conjunct2, rule_format, OF c] a b c
  show ?thesis by simp
qed

text \<open>
  C6. Whatever the compress request, the handler ends in one of two ways. Either one
  exception leaves it (or it answers 400 for a missing file) and the database is as it
  was; or it returns the result page, and the database has exactly one new row, whose
  data are the complete bytes that the final save returned. In particular an exception
  in the vector or raster path after the classification, or in the final save, is the
  exception that leaves the handler, with nothing stored.
\<close>

theorem no_partial_result_stored:
  assumes "process_pdf_compress lib db file = (r, db')"
  shows "(case r of
            Inl e \<Rightarrow> db' = db
          | Inr (Plain body status) \<Rightarrow> db' = db \<and> status = 400
          | Inr (Result_page name operation file_id) \<Rightarrow>
              (\<exists>f d output_bytes. file = Some f
                 \<and> compress_branches lib (up_content f) = Inr (Some d)
                 \<and> doc_save lib d 4 True = Inr output_bytes
                 \<and> db' = db @ [\<lparr>fr_id = file_id, fr_filename = name,
                                 fr_operation = ''compress'', fr_file_data = output_bytes\<rparr>]))
         \<and> (\<forall>f e. file = Some f \<and> up_filename f \<noteq> [] \<and> compress_output lib (up_content f) = Inl e
               \<longrightarrow> r = Inl e \<and> db' = db)"
proof (cases "file")
  case None
  with assms show ?thesis by (auto simp: process_pdf_compress_def)
next
  case (Some f)
  show ?thesis
  proof (cases "up_filename f = []")
    case True
    with Some assms show ?thesis by (auto simp: process_pdf_compress_def)
  next
    case False
    show ?thesis
    proof (cases "compress_output lib (up_content f)")
      case (Inl e)
      with Some False assms show ?thesis by (auto simp: process_pdf_compress_def)
    next
      case (Inr out)
      then obtain d where "compress_branches lib (up_content f) = Inr (Some d)"
        "doc_save lib d 4 True = Inr out"
        by (auto simp: compress_output_def final_save_def split: sum.splits option.splits)
      with Some False Inr assms show ?thesis
        by (auto simp: process_pdf_compress_def Let_def)
    qed
  qed
qed

lemma toy_fields:
  "pikepdf_open toy_libs data = (if data = [] then Inl (LibraryError ''PdfError'') else Inr data)"
  "pdf_pages toy_libs pdf = Inr pdf"
  "page_has_contents toy_libs p = (if p = 9 then Inl (LibraryError ''PdfError'') else Inr (p = 7))"
  "pdf_save toy_libs pdf args = (Inr (case arg_compression args of None \<Rightarrow> 1 # pdf | Some l \<Rightarrow> 2 # pdf), pdf)"
  "fitz_open toy_libs data = (if data = [] then Inl (LibraryError ''FileDataError'') else Inr (chop4 data))"
  "doc_len toy_libs doc = length doc"
  "doc_get_images toy_libs doc i = (if i < length doc then Inr [i] else Inl (LibraryError ''IndexError''))"
  "doc_extract_image toy_libs doc x = (if x < length doc then Inr (doc ! x) else Inl (LibraryError ''ValueError''))"
  "doc_update_image toy_libs doc x s = (if x < length doc then Inr (doc[x := s]) else Inl (LibraryError ''ValueError''))"
  "doc_save toy_libs doc g d = Inr (concat doc)"
  "Image_open toy_libs = toy_decode"
  "image_resize toy_libs = toy_resize"
  "image_save toy_libs = toy_encode"
  by (simp_all add: toy_libs_def)

lemma toy_process_bilevel: "process_image toy_libs [[0, 150, 100, 100]] 0 = Inr [[4, 0, 100, 100]]"
  by (simp add: process_image_def toy_libs_def toy_decode_def toy_encode_def downsample_def Let_def
      effective_dpi_def number_value_def DPI_THRESHOLD_def TARGET_DPI_def save_arguments_def choose_compression_def)

lemma toy_raster_scan: "raster_branch toy_libs [0, 150, 100, 100] = Inr [[4, 0, 100, 100]]"
proof -
  have "fitz_open toy_libs [0, 150, 100, 100] = Inr [[0, 150, 100, 100]]"
    by (simp add: toy_libs_def)
  moreover have "doc_len toy_libs [[0, 150, 100, 100]] = 1"
    by (simp add: toy_libs_def)
  moreover have "doc_get_images toy_libs [[0, 150, 100, 100]] 0 = Inr [0]"
    by (simp add: toy_libs_def)
  ultimately show ?thesis
    by (simp add: raster_branch_def toy_process_bilevel)
qed

lemma toy_classify_scan: "classify toy_libs [0, 150, 100, 100] = (False, Some [0, 150, 100, 100])"
  by (simp add: classify_def inspect_pdf_def toy_libs_def)

lemma toy_branches_scan: "compress_branches toy_libs [0, 150, 100, 100] = Inr (Some [[4, 0, 100, 100]])"
  by (simp add: compress_branches_def toy_classify_scan toy_raster_scan)

lemma toy_output_scan: "compress_output toy_libs [0, 150, 100, 100] = Inr [4, 0, 100, 100]"
  by (simp add: compress_output_def toy_branches_scan final_save_def toy_fields)

lemma toy_process_scan:
  "process_pdf_compress toy_libs [] (Some \<lparr>up_filename = ''s.pdf'', up_content = [0, 150, 100, 100]\<rparr>)
     = (Inr (Result_page ''s_compressed.pdf'' ''compress'' 1),
        [\<lparr>fr_id = 1, fr_filename = ''s_compressed.pdf'', fr_operation = ''compress'',
          fr_file_data = [4, 0, 100, 100]\<rparr>])"
  by (simp add: process_pdf_compress_def toy_output_scan next_id_def Let_def)

lemma toy_output_vector: "compress_output toy_libs [7] = Inl (UnboundLocalError ''doc'')"
  by (simp add: compress_output_def compress_branches_def toy_classify_7 toy_vector_7 final_save_def)

theorem no_partial_result_stored_witness:
  "process_pdf_compress toy_libs [] (Some \<lparr>up_filename = ''s.pdf'', up_content = [0, 150, 100, 100]\<rparr>)
     = (Inr (Result_page ''s_compressed.pdf'' ''compress'' 1),
        [\<lparr>fr_id = 1, fr_filename = ''s_compressed.pdf'', fr_operation = ''compress'',
          fr_file_data = [4, 0, 100, 100]\<rparr>])
   \<and> compress_branches toy_libs [0, 150, 100, 100] = Inr (Some [[4, 0, 100, 100]])
   \<and> doc_save toy_libs [[4, 0, 100, 100]] 4 True = Inr [4, 0, 100, 100]
   \<and> compress_output toy_libs [7] = Inl (UnboundLocalError ''doc'')
   \<and> process_pdf_compress toy_libs [] (Some \<lparr>up_filename = ''v.pdf'', up_content = [7]\<rparr>)
     = (Inl (UnboundLocalError ''doc''), [])"
proof -
  let ?v = "\<lparr>up_filename = ''v.pdf'', up_content = [7]\<rparr>"
  obtain r db' where p: "process_pdf_compress toy_libs [] (Some ?v) = (r, db')"
    by (cases "process_pdf_compress toy_libs [] (Some ?v)")
  have "Some ?v = Some ?v \<and> up_filename ?v \<noteq> [] \<and> compress_output toy_libs (up_content ?v) = Inl (UnboundLocalError ''doc'')"
    by (simp add: toy_output_vector)
  with no_partial_result_stored [OF p, THEN conjunct2, rule_format, of ?v "UnboundLocalError ''doc''"]
  have "r = Inl (UnboundLocalError ''doc'') \<and> db' = []" by blast
  with p have v: "process_pdf_compress toy_libs [] (Some ?v) = (Inl (UnboundLocalError ''doc''), [])"
    by simp
  from no_partial_result_stored [OF toy_process_scan] v show ?thesis
    by (simp add: toy_process_scan toy_branches_scan toy_output_vector toy_fields)
qed





subsection \<open>The float arithmetic of lines 140--142\<close>

lemma two_powi_nat: "0 \<le> k \<Longrightarrow> (2::rat) powi k = of_int (2 ^ nat k)"
  by (simp add: power_int_def)

lemma two_powi_pos: "0 < (2::rat) powi k"
  by (simp add: power_int_def)

lemma two_powi_mono: "j \<le> k \<Longrightarrow> (2::rat) powi j \<le> 2 powi k"
  by (rule power_int_increasing) simp_all

lemma two_powi_less_iff: "(2::rat) powi j < 2 powi k \<longleftrightarrow> j < k"
proof
  assume l: "(2::rat) powi j < 2 powi k"
  show "j < k"
  proof (rule ccontr)
    assume "\<not> j < k"
    then have "(2::rat) powi k \<le> 2 powi j" by (intro two_powi_mono) simp
    with l show False by simp
  qed
next
  assume "j < k"
  then show "(2::rat) powi j < 2 powi k" by (intro power_int_strict_increasing) simp_all
qed

lemma flog2_bounds:
  assumes "0 < x"
  shows "2 powi flog2 x \<le> x \<and> x < 2 powi (flog2 x + 1)"
proof -
  obtain a b where q: "quotient_of x = (a, b)" by (cases "quotient_of x")
  have b: "0 < b" using quotient_of_denom_pos [OF q] .
  have x: "x = of_int a / of_int b" using quotient_of_div [OF q] .
  have a: "0 < a" using assms b x by (simp add: zero_less_divide_iff)
  define ka where "ka = bitlen a"
  define kb where "kb = bitlen b"
  have ka: "2 ^ nat (ka - 1) \<le> a" "a < 2 ^ nat ka"
    using bitlen_bounds [OF a] by (simp_all add: ka_def)
  have kb: "2 ^ nat (kb - 1) \<le> b" "b < 2 ^ nat kb"
    using bitlen_bounds [OF b] by (simp_all add: kb_def)
  have ka1: "1 \<le> ka"
  proof (rule ccontr)
    assume "\<not> 1 \<le> ka"
    then have "nat ka = 0" by simp
    with ka(2) a show False by simp
  qed
  have kb1: "1 \<le> kb"
  proof (rule ccontr)
    assume "\<not> 1 \<le> kb"
    then have "nat kb = 0" by simp
    with kb(2) b show False by simp
  qed
  have ra: "(2::rat) powi (ka - 1) \<le> of_int a" "of_int a < (2::rat) powi ka"
    using ka ka1 by (simp_all add: two_powi_nat del: of_int_power)
  have rb: "(2::rat) powi (kb - 1) \<le> of_int b" "of_int b < (2::rat) powi kb"
    using kb kb1 by (simp_all add: two_powi_nat del: of_int_power)
  have rbpos: "(0::rat) < of_int b" using b by simp
  have up: "x < 2 powi (ka - kb + 1)"
  proof -
    have "of_int a < (2::rat) powi (ka - kb + 1) * 2 powi (kb - 1)"
      using ra(2) by (simp flip: power_int_add)
    also have "\<dots> \<le> 2 powi (ka - kb + 1) * of_int b"
      using rb(1) two_powi_pos [of "ka - kb + 1"] by (simp add: mult_left_mono)
    finally show ?thesis using rbpos by (simp add: x pos_divide_less_eq)
  qed
  have lo: "2 powi (ka - kb - 1) < x"
  proof -
    have "(2::rat) powi (ka - kb - 1) * of_int b < 2 powi (ka - kb - 1) * 2 powi kb"
      using rb(2) two_powi_pos [of "ka - kb - 1"] by (simp add: mult_strict_left_mono)
    also have "\<dots> = 2 powi (ka - 1)" by (simp flip: power_int_add)
    also have "\<dots> \<le> of_int a" by (rule ra(1))
    finally show ?thesis using rbpos by (simp add: x pos_less_divide_eq)
  qed
  show ?thesis
  proof (cases "(2::rat) powi (ka - kb) \<le> x")
    case True
    then have "flog2 x = ka - kb" by (simp add: flog2_def q ka_def kb_def)
    with True up show ?thesis by simp
  next
    case False
    then have "flog2 x = ka - kb - 1" by (simp add: flog2_def q ka_def kb_def)
    with False lo show ?thesis by simp
  qed
qed

lemma round_half_even_error: "\<bar>of_int (round_half_even y) - y\<bar> \<le> 1 / 2"
proof -
  have "of_int \<lfloor>y\<rfloor> \<le> y" "y < of_int \<lfloor>y\<rfloor> + 1" by linarith+
  then show ?thesis
    by (auto simp: round_half_even_def Let_def)
qed

lemma round_half_even_of_int: "round_half_even (of_int n) = n"
  by (simp add: round_half_even_def)

lemma round_half_even_nonneg: "0 \<le> y \<Longrightarrow> 0 \<le> round_half_even y"
  by (auto simp: round_half_even_def Let_def)

lemma fl_pos_error:
  "\<bar>fl_pos x - x\<bar> \<le> 2 powi (max (flog2 x) (- 1022) - 53)"
proof -
  define s where "s = 52 - max (flog2 x) (- 1022)"
  define y where "y = x * 2 powi s"
  have f: "fl_pos x = of_int (round_half_even y) * 2 powi (- s)"
    by (simp add: fl_pos_def s_def y_def Let_def)
  have "y * 2 powi (- s) = x * (2 powi s * 2 powi (- s))" by (simp add: y_def)
  also have "2 powi s * (2::rat) powi (- s) = 1" by (simp flip: power_int_add)
  finally have x: "x = y * 2 powi (- s)" by simp
  have "fl_pos x - x = (of_int (round_half_even y) - y) * 2 powi (- s)"
    by (subst (2) x) (simp add: f algebra_simps)
  then have "\<bar>fl_pos x - x\<bar> = \<bar>of_int (round_half_even y) - y\<bar> * 2 powi (- s)"
    using two_powi_pos [of "- s"] by (simp add: abs_mult)
  also have "\<dots> \<le> (1 / 2) * 2 powi (- s)"
    using round_half_even_error [of y] two_powi_pos [of "- s"] by (intro mult_right_mono) simp_all
  also have "(1 / 2) * (2::rat) powi (- s) = 2 powi (- 1) * 2 powi (- s)" by simp
  also have "\<dots> = 2 powi (- 1 + - s)" by (rule power_int_add [symmetric]) simp
  also have "- 1 + - s = max (flog2 x) (- 1022) - 53" by (simp add: s_def)
  finally show ?thesis .
qed

lemma fl_error:
  assumes "0 \<le> x"
  shows "\<bar>fl x - x\<bar> \<le> x / 2 ^ 53 + 2 powi (- 1075)"
proof (cases "x = 0")
  case True
  then show ?thesis by (simp add: fl_def)
next
  case False
  with assms have pos: "0 < x" by simp
  then have f: "fl x = fl_pos x" by (simp add: fl_def)
  show ?thesis
  proof (cases "- 1022 \<le> flog2 x")
    case True
    then have "\<bar>fl x - x\<bar> \<le> 2 powi (flog2 x - 53)"
      using fl_pos_error [of x] by (simp add: f max_def)
    also have "(2::rat) powi (flog2 x - 53) = 2 powi flog2 x / 2 ^ 53"
      by (simp add: power_int_diff)
    also have "\<dots> \<le> x / 2 ^ 53"
      using flog2_bounds [OF pos] by (simp add: divide_right_mono)
    also have "\<dots> \<le> x / 2 ^ 53 + 2 powi (- 1075)"
      using two_powi_pos [of "- 1075"] by simp
    finally show ?thesis .
  next
    case False
    then have "\<bar>fl x - x\<bar> \<le> 2 powi (- 1075)"
      using fl_pos_error [of x] by (simp add: f max_def)
    also have "\<dots> \<le> x / 2 ^ 53 + 2 powi (- 1075)"
      using pos by simp
    finally show ?thesis .
  qed
qed

lemma fl_nonneg: "0 \<le> x \<Longrightarrow> 0 \<le> fl x"
proof -
  assume "0 \<le> x"
  have "0 \<le> fl_pos x" if "0 < x"
  proof -
    have "0 \<le> x * 2 powi (52 - max (flog2 x) (- 1022))"
      using that two_powi_pos [of "52 - max (flog2 x) (- 1022)"] by simp
    from round_half_even_nonneg [OF this] show ?thesis
      using two_powi_pos [of "- (52 - max (flog2 x) (- 1022))"]
      by (simp add: fl_pos_def Let_def)
  qed
  with \<open>0 \<le> x\<close> show ?thesis by (simp add: fl_def)
qed

lemma fl_of_int_exact:
  assumes "0 \<le> n" "n < 2 ^ 53"
  shows "fl (of_int n) = of_int n"
proof (cases "n = 0")
  case True
  then show ?thesis by (simp add: fl_def)
next
  case False
  with assms have n: "0 < n" by simp
  then have pos: "(0::rat) < of_int n" by simp
  define e where "e = flog2 (of_int n)"
  have b: "2 powi e \<le> (of_int n :: rat)" "(of_int n :: rat) < 2 powi (e + 1)"
    using flog2_bounds [OF pos] by (simp_all add: e_def)
  have "(2::rat) powi 0 \<le> of_int n" using n by simp
  from le_less_trans [OF this b(2)] have "(2::rat) powi 0 < 2 powi (e + 1)" .
  then have "0 < e + 1" by (simp only: two_powi_less_iff)
  then have e0: "0 \<le> e" by simp
  have "(of_int n :: rat) < of_int (2 ^ 53)" using assms(2) by (simp only: of_int_less_iff)
  then have "(of_int n :: rat) < 2 powi 53" by simp
  from le_less_trans [OF b(1) this] have "(2::rat) powi e < 2 powi 53" .
  then have "e < 53" by (simp only: two_powi_less_iff)
  then have e52: "e \<le> 52" by simp
  define s where "s = 52 - e"
  have s: "0 \<le> s" "s = 52 - max (flog2 (of_int n)) (- 1022)"
    using e0 e52 by (simp_all add: s_def e_def max_def)
  have y: "(of_int n :: rat) * 2 powi s = of_int (n * 2 ^ nat s)"
    using s(1) by (simp add: power_int_def)
  have "fl_pos (of_int n) = of_int (n * 2 ^ nat s) * 2 powi (- s)"
    unfolding fl_pos_def Let_def s(2) [symmetric] y round_half_even_of_int ..
  also have "\<dots> = of_int n * (2 powi s * 2 powi (- s))"
    using s(1) by (simp add: power_int_def)
  also have "2 powi s * (2::rat) powi (- s) = 1" by (simp flip: power_int_add)
  finally show ?thesis using pos by (simp add: fl_def)
qed

lemma float_of_int_small:
  assumes "0 \<le> n" "n < 2 ^ 31"
  shows "float_of_int n = Inr (of_int n)"
proof -
  have "n < 2 ^ 53" using assms(2) by simp
  with assms(1) have f: "fl (of_int n) = of_int n" by (rule fl_of_int_exact)
  have "(of_int n :: rat) < 2 ^ 1024"
  proof -
    have "n < 2 ^ 1024" using assms(2) by simp
    then have "(of_int n :: rat) < of_int (2 ^ 1024)" by (simp only: of_int_less_iff)
    then show ?thesis by simp
  qed
  with assms(1) show ?thesis by (simp add: float_of_int_def f)
qed

lemma tiny_le_ulp: "(2::rat) powi (- 1075) \<le> 1 / 2 ^ 53"
proof -
  have "(2::rat) powi (- 1075) \<le> 2 powi (- 53)" by (rule two_powi_mono) simp
  also have "(2::rat) powi (- 53) = 1 / 2 ^ 53" by (simp add: power_int_minus_divide)
  finally show ?thesis .
qed

lemma fl_error_le:
  assumes "0 \<le> x" "x \<le> b"
  shows "\<bar>fl x - x\<bar> \<le> (b + 1) / 2 ^ 53"
proof -
  have "\<bar>fl x - x\<bar> \<le> x / 2 ^ 53 + 2 powi (- 1075)" using assms(1) by (rule fl_error)
  also have "\<dots> \<le> b / 2 ^ 53 + 1 / 2 ^ 53"
    using assms(2) tiny_le_ulp by (intro add_mono divide_right_mono) simp_all
  also have "\<dots> = (b + 1) / 2 ^ 53" by (simp add: add_divide_distrib)
  finally show ?thesis .
qed

lemma scaled_product_close:
  assumes n: "0 \<le> n" "n < 2 ^ 31" and d: "200 < d"
  shows "0 \<le> fl (of_int n * fl (150 / d))
         \<and> \<bar>fl (of_int n * fl (150 / d)) - of_int n * 150 / d\<bar> \<le> 1 / 2 ^ 20"
proof -
  define x where "x = 150 / d"
  define f where "f = fl x"
  define N :: rat where "N = of_int n"
  define p where "p = N * f"
  have dpos: "0 < d" using d by simp
  have x: "0 \<le> x" "x \<le> 1"
    using d dpos by (simp_all add: x_def pos_divide_le_eq)
  have N: "0 \<le> N" "N \<le> 2 ^ 31"
  proof -
    show "0 \<le> N" using n(1) by (simp add: N_def)
    have "n \<le> 2 ^ 31" using n(2) by simp
    then have "(of_int n :: rat) \<le> of_int (2 ^ 31)" by (simp only: of_int_le_iff)
    then show "N \<le> 2 ^ 31" by (simp add: N_def)
  qed
  have f0: "0 \<le> f" using x(1) by (simp add: f_def fl_nonneg)
  have fe: "\<bar>f - x\<bar> \<le> 2 / 2 ^ 53"
    using fl_error_le [OF x] by (simp add: f_def)
  have "N * \<bar>f - x\<bar> \<le> 2 ^ 31 * (2 / 2 ^ 53)"
    using N fe by (intro mult_mono) simp_all
  then have Nfe: "N * \<bar>f - x\<bar> \<le> 1 / 2 ^ 21" by simp
  have "\<bar>p - N * x\<bar> = N * \<bar>f - x\<bar>"
    using N(1) by (simp add: p_def abs_mult flip: right_diff_distrib)
  with Nfe have pe: "\<bar>p - N * x\<bar> \<le> 1 / 2 ^ 21" by simp
  have "N * x \<le> 2 ^ 31 * 1" using N x by (intro mult_mono) simp_all
  moreover from pe have "p - N * x \<le> 1 / 2 ^ 21" by (rule abs_le_D1)
  moreover have "(1::rat) / 2 ^ 21 \<le> 1" "(2::rat) ^ 31 * 1 + 1 \<le> 2 ^ 32 - 1" by simp_all
  ultimately have p32: "p \<le> 2 ^ 32 - 1" by linarith
  have p0: "0 \<le> p" using N(1) f0 by (simp add: p_def)
  have "\<bar>fl p - p\<bar> \<le> (2 ^ 32 - 1 + 1) / 2 ^ 53" using p0 p32 by (rule fl_error_le)
  then have re: "\<bar>fl p - p\<bar> \<le> 1 / 2 ^ 21" by simp
  have "\<bar>fl p - N * x\<bar> \<le> \<bar>fl p - p\<bar> + \<bar>p - N * x\<bar>" by simp
  with re pe have "\<bar>fl p - N * x\<bar> \<le> 1 / 2 ^ 21 + 1 / 2 ^ 21" by linarith
  then have "\<bar>fl p - N * x\<bar> \<le> 1 / 2 ^ 20" by simp
  moreover have "0 \<le> fl p" using p0 by (rule fl_nonneg)
  moreover have "N * x = of_int n * 150 / d" by (simp add: N_def x_def)
  ultimately show ?thesis by (simp add: p_def f_def x_def N_def)
qed

lemma float_quotient_bounds:
  assumes d: "200 < d"
  shows "0 \<le> fl (150 / d) \<and> fl (150 / d) \<le> 7 / 8"
proof -
  define x where "x = 150 / d"
  have dpos: "0 < d" using d by simp
  have x: "0 \<le> x" "x \<le> 3 / 4"
    using d dpos by (simp_all add: x_def pos_divide_le_eq)
  have "\<bar>fl x - x\<bar> \<le> (3 / 4 + 1) / 2 ^ 53" using x by (rule fl_error_le)
  then have "fl x - x \<le> (3 / 4 + 1) / 2 ^ 53" by (rule abs_le_D1)
  moreover have "((3::rat) / 4 + 1) / 2 ^ 53 \<le> 1 / 8" by simp
  ultimately have "fl x \<le> 7 / 8" using x(2) by linarith
  moreover have "0 \<le> fl x" using x(1) by (rule fl_nonneg)
  ultimately show ?thesis by (simp add: x_def)
qed

text \<open>Line 140 above the threshold: a float for an int or a float \<open>dpi\<close>, the exact
  quotient for a Fraction; it never raises.\<close>

lemma int_truediv_float:
  assumes "200 < number_value d" and "\<forall>q. d \<noteq> PyFraction q"
  shows "int_truediv 150 d = Inr (PyFloat (fl (150 / number_value d)))"
proof (cases d)
  case (PyInt k)
  with assms(1) have k: "(200::rat) < of_int k" by (simp add: number_value_def)
  from float_quotient_bounds [OF k] have "\<bar>fl (150 / of_int k)\<bar> \<le> 7 / 8" by simp
  moreover have "(7::rat) / 8 < 2 ^ 1024" by simp
  ultimately have "\<not> 2 ^ 1024 \<le> \<bar>fl (150 / of_int k)\<bar>" by linarith
  with k PyInt show ?thesis by (simp add: int_truediv_def number_value_def)
next
  case (PyFloat r)
  have "float_of_int 150 = Inr 150" using float_of_int_small [of 150] by simp
  with assms(1) PyFloat show ?thesis by (simp add: int_truediv_def number_value_def)
next
  case (PyFraction q)
  with assms(2) show ?thesis by simp
qed

lemma int_truediv_fraction:
  assumes "200 < q"
  shows "int_truediv 150 (PyFraction q) = Inr (PyFraction (150 / q))"
  using assms by (simp add: int_truediv_def number_value_def)

text \<open>Lines 141 and 142 on a float and on a Fraction.\<close>

lemma scale_dimension_float:
  assumes "0 \<le> n" "n < 2 ^ 31"
  shows "scale_dimension n (PyFloat f) = Inr (int_of_float (fl (of_int n * f)))"
  by (simp add: scale_dimension_def int_times_def py_int_def float_of_int_small [OF assms])

lemma scale_dimension_fraction:
  "scale_dimension n (PyFraction q) = Inr (int_of_float (of_int n * q))"
  by (simp add: scale_dimension_def int_times_def py_int_def)

lemma scale_dimension_close:
  assumes n: "0 \<le> n" "n < 2 ^ 31" and d: "200 < d"
  shows "\<exists>m. scale_dimension n (PyFloat (fl (150 / d))) = Inr m
             \<and> m = \<lfloor>fl (of_int n * fl (150 / d))\<rfloor>
             \<and> \<bar>m - \<lfloor>of_int n * 150 / d\<rfloor>\<bar> \<le> 1"
proof -
  define r where "r = fl (of_int n * fl (150 / d))"
  define q where "q = of_int n * 150 / d"
  from scaled_product_close [OF assms] have r0: "0 \<le> r" "\<bar>r - q\<bar> \<le> 1 / 2 ^ 20"
    by (simp_all add: r_def q_def)
  have "(1::rat) / 2 ^ 20 < 1 / 2" by simp
  with r0 have r: "0 \<le> r" "\<bar>r - q\<bar> < 1 / 2" by linarith+
  have s: "scale_dimension n (PyFloat (fl (150 / d))) = Inr \<lfloor>r\<rfloor>"
    using r(1) by (simp add: scale_dimension_float [OF n] int_of_float_def r_def)
  have rq: "r \<le> q + 1" "q - 1 \<le> r" using r(2) by linarith+
  have "\<lfloor>r\<rfloor> \<le> \<lfloor>q + 1\<rfloor>" using rq(1) by (rule floor_mono)
  moreover have "\<lfloor>q - 1\<rfloor> \<le> \<lfloor>r\<rfloor>" using rq(2) by (rule floor_mono)
  ultimately have "\<bar>\<lfloor>r\<rfloor> - \<lfloor>q\<rfloor>\<bar> \<le> 1" by simp
  with s show ?thesis by (simp add: r_def q_def)
qed

lemma scale_dimension_exact:
  assumes "0 \<le> n" and "200 < q"
  shows "scale_dimension n (PyFraction (150 / q)) = Inr \<lfloor>of_int n * 150 / q\<rfloor>"
proof -
  have "(0::rat) \<le> of_int n * (150 / q)" using assms by simp
  then show ?thesis by (simp add: scale_dimension_fraction int_of_float_def)
qed

lemma scale_one_is_zero:
  assumes d: "200 < d"
  shows "scale_dimension 1 (PyFloat (fl (150 / d))) = Inr 0"
proof -
  from float_quotient_bounds [OF d] have f0: "0 \<le> fl (150 / d)" and f: "fl (150 / d) \<le> 7 / 8"
    by simp_all
  have "\<bar>fl (fl (150 / d)) - fl (150 / d)\<bar> \<le> (7 / 8 + 1) / 2 ^ 53"
    using f0 f by (rule fl_error_le)
  then have "fl (fl (150 / d)) - fl (150 / d) \<le> (7 / 8 + 1) / 2 ^ 53" by (rule abs_le_D1)
  moreover have "((7::rat) / 8 + 1) / 2 ^ 53 \<le> 1 / 16" by simp
  ultimately have "fl (fl (150 / d)) < 1" using f by linarith
  moreover have nonneg: "0 \<le> fl (fl (150 / d))" using f0 by (rule fl_nonneg)
  ultimately have "\<lfloor>fl (fl (150 / d))\<rfloor> = 0" by (simp add: floor_eq_iff)
  moreover have "scale_dimension 1 (PyFloat (fl (150 / d)))
      = Inr (int_of_float (fl (of_int 1 * fl (150 / d))))"
    by (rule scale_dimension_float) simp_all
  ultimately show ?thesis using nonneg by (simp add: int_of_float_def)
qed

lemma scale_one_is_zero_exact:
  assumes q: "200 < q"
  shows "scale_dimension 1 (PyFraction (150 / q)) = Inr 0"
proof -
  have qpos: "0 < q" using q by simp
  have "0 \<le> 150 / q" "150 / q < 1" using q qpos by (simp_all add: pos_divide_less_eq)
  then have "\<lfloor>150 / q\<rfloor> = 0" by (simp add: floor_eq_iff)
  with scale_dimension_exact [of 1 q] q show ?thesis by simp
qed

lemma scale_dimension_integer_dpi:
  assumes n: "0 \<le> n" "n < 2 ^ 31" and k: "200 < k" "k < 2 ^ 20"
  shows "\<lfloor>fl (of_int n * fl (150 / of_int k))\<rfloor> \<le> \<lfloor>of_int n * 150 / (of_int k :: rat)\<rfloor>"
proof -
  define r where "r = fl (of_int n * fl (150 / of_int k))"
  define q :: rat where "q = of_int n * 150 / of_int k"
  have kr: "(200::rat) < of_int k" using k(1) by simp
  from scaled_product_close [OF n kr] have "\<bar>r - q\<bar> \<le> 1 / 2 ^ 20"
    by (simp add: r_def q_def)
  then have rq: "r - q \<le> 1 / 2 ^ 20" by (rule abs_le_D1)
  have kpos: "(0::rat) < of_int k" using k(1) by simp
  have qq: "q = of_int (n * 150) / of_int k" by (simp add: q_def)
  have fq: "\<lfloor>q\<rfloor> = (n * 150) div k" unfolding qq by (rule floor_divide_of_int_eq)
  have dm: "k * ((n * 150) div k) + (n * 150) mod k = n * 150" by (rule mult_div_mod_eq)
  have "(n * 150) mod k < k" using k(1) by (intro pos_mod_bound) simp
  with dm have "n * 150 \<le> k * ((n * 150) div k) + (k - 1)" by linarith
  then have "n * 150 \<le> k * \<lfloor>q\<rfloor> + (k - 1)" by (simp only: fq)
  then have "(of_int (n * 150) :: rat) \<le> of_int (k * \<lfloor>q\<rfloor> + (k - 1))" by (simp only: of_int_le_iff)
  then have "q * of_int k \<le> of_int k * of_int \<lfloor>q\<rfloor> + (of_int k - 1)"
    using kpos by (simp add: qq)
  then have "q \<le> (of_int k * of_int \<lfloor>q\<rfloor> + (of_int k - 1)) / of_int k"
    using kpos by (simp add: pos_le_divide_eq)
  also have "\<dots> = of_int \<lfloor>q\<rfloor> + 1 - 1 / of_int k"
    using kpos by (simp add: field_simps)
  finally have q1: "q \<le> of_int \<lfloor>q\<rfloor> + 1 - 1 / of_int k" .
  have "(of_int k :: rat) < of_int (2 ^ 20)" using k(2) by (simp only: of_int_less_iff)
  then have "(of_int k :: rat) < 2 ^ 20" by simp
  then have "1 / 2 ^ 20 < 1 / (of_int k :: rat)"
    using kpos by (intro divide_strict_left_mono) simp_all
  with rq q1 have "r < of_int \<lfloor>q\<rfloor> + 1" by linarith
  then have "r < of_int (\<lfloor>q\<rfloor> + 1)" by simp
  then have "\<lfloor>r\<rfloor> < \<lfloor>q\<rfloor> + 1" by (simp only: floor_less_iff)
  then have "\<lfloor>r\<rfloor> \<le> \<lfloor>q\<rfloor>" by simp
  then show ?thesis by (simp add: r_def q_def)
qed

lemma eval_318: "scale_dimension 318 (PyFloat (fl (150 / 212))) = Inr 224"
  by code_simp

lemma eval_3000: "scale_dimension 3000 (PyFloat (fl (150 / 300))) = Inr 1500"
  by code_simp

lemma eval_2400: "scale_dimension 2400 (PyFloat (fl (150 / 300))) = Inr 1200"
  by code_simp

lemma downsample_above_threshold:
  assumes "200 < number_value (effective_dpi img)"
    and "int_truediv 150 (effective_dpi img) = Inr factor"
    and "scale_dimension (img_width img) factor = Inr nw"
    and "scale_dimension (img_height img) factor = Inr nh"
  shows "downsample lib img = image_resize lib img (nw, nh)"
  using assms by (simp add: downsample_def DPI_THRESHOLD_def TARGET_DPI_def Let_def)

lemma downsample_below_threshold:
  "number_value (effective_dpi img) \<le> 200 \<Longrightarrow> downsample lib img = Inr img"
  by (simp add: downsample_def DPI_THRESHOLD_def Let_def)

text \<open>
  C4 (as amended). The effective DPI is the first component of the declared \<open>dpi\<close>, or
  the int 150 when none is declared. If it is at most 200 (so also in the default case)
  the image is left as it is. If it exceeds 200, \<open>image.resize\<close> is called with
  \<open>int(width * factor)\<close> and \<open>int(height * factor)\<close>, where \<open>factor = 150 / dpi\<close>, in the
  arithmetic of the type of \<open>dpi\<close>. For a rational \<open>dpi\<close> (the IFDRational of TIFF and
  EXIF resolutions) the arithmetic is exact: both dimensions are the input dimensions
  times 150/DPI, rounded down. For an int or a float \<open>dpi\<close> the quotient and each
  product are rounded to a float before the truncation: for dimensions below \<open>2^31\<close>
  each output dimension differs from the input dimension times 150/DPI rounded down by
  at most one, and for a whole-number DPI below \<open>2^20\<close> it is that value or one less. A
  3000 by 2400 image at 300 DPI is resized to 1500 by 1200, whatever the type of the
  300.
\<close>

theorem downsample_dimensions:
  "(img_dpi img = None \<longrightarrow> effective_dpi img = PyInt 150)
   \<and> (number_value (effective_dpi img) \<le> 200 \<longrightarrow> downsample lib img = Inr img)
   \<and> (effective_dpi img = PyFraction q \<and> 200 < q \<and> 0 \<le> img_width img \<and> 0 \<le> img_height img
      \<longrightarrow> downsample lib img
            = image_resize lib img
                (\<lfloor>of_int (img_width img) * 150 / q\<rfloor>, \<lfloor>of_int (img_height img) * 150 / q\<rfloor>))
   \<and> ((\<forall>q. effective_dpi img \<noteq> PyFraction q) \<and> number_value (effective_dpi img) = d
        \<and> 200 < d \<and> 0 \<le> img_width img \<and> img_width img < 2 ^ 31
        \<and> 0 \<le> img_height img \<and> img_height img < 2 ^ 31
      \<longrightarrow> (\<exists>nw nh. downsample lib img = image_resize lib img (nw, nh)
            \<and> nw = \<lfloor>fl (of_int (img_width img) * fl (150 / d))\<rfloor>
            \<and> nh = \<lfloor>fl (of_int (img_height img) * fl (150 / d))\<rfloor>
            \<and> \<bar>nw - \<lfloor>of_int (img_width img) * 150 / d\<rfloor>\<bar> \<le> 1
            \<and> \<bar>nh - \<lfloor>of_int (img_height img) * 150 / d\<rfloor>\<bar> \<le> 1
            \<and> (\<forall>k. d = of_int k \<and> k < 2 ^ 20
                  \<longrightarrow> nw \<le> \<lfloor>of_int (img_width img) * 150 / d\<rfloor>
                    \<and> nh \<le> \<lfloor>of_int (img_height img) * 150 / d\<rfloor>)))
   \<and> (number_value (effective_dpi img) = 300 \<and> img_width img = 3000 \<and> img_height img = 2400
      \<longrightarrow> downsample lib img = image_resize lib img (1500, 1200))"
proof (intro conjI impI)
  assume "img_dpi img = None"
  then show "effective_dpi img = PyInt 150" by (simp add: effective_dpi_def TARGET_DPI_def)
next
  assume "number_value (effective_dpi img) \<le> 200"
  then show "downsample lib img = Inr img" by (rule downsample_below_threshold)
next
  assume h: "effective_dpi img = PyFraction q \<and> 200 < q \<and> 0 \<le> img_width img \<and> 0 \<le> img_height img"
  then have e: "effective_dpi img = PyFraction q" and q: "200 < q"
    and w: "0 \<le> img_width img" and ht: "0 \<le> img_height img" by simp_all
  show "downsample lib img
          = image_resize lib img
              (\<lfloor>of_int (img_width img) * 150 / q\<rfloor>, \<lfloor>of_int (img_height img) * 150 / q\<rfloor>)"
  proof (rule downsample_above_threshold)
    show "200 < number_value (effective_dpi img)" using q by (simp add: e number_value_def)
    show "int_truediv 150 (effective_dpi img) = Inr (PyFraction (150 / q))"
      unfolding e using q by (rule int_truediv_fraction)
    show "scale_dimension (img_width img) (PyFraction (150 / q))
        = Inr \<lfloor>of_int (img_width img) * 150 / q\<rfloor>"
      using w q by (rule scale_dimension_exact)
    show "scale_dimension (img_height img) (PyFraction (150 / q))
        = Inr \<lfloor>of_int (img_height img) * 150 / q\<rfloor>"
      using ht q by (rule scale_dimension_exact)
  qed
next
  assume h: "(\<forall>q. effective_dpi img \<noteq> PyFraction q) \<and> number_value (effective_dpi img) = d
        \<and> 200 < d \<and> 0 \<le> img_width img \<and> img_width img < 2 ^ 31
        \<and> 0 \<le> img_height img \<and> img_height img < 2 ^ 31"
  then have nf: "\<forall>q. effective_dpi img \<noteq> PyFraction q"
    and v: "number_value (effective_dpi img) = d" and d: "200 < d"
    and w: "0 \<le> img_width img" "img_width img < 2 ^ 31"
    and ht: "0 \<le> img_height img" "img_height img < 2 ^ 31"
    by simp_all
  have above: "200 < number_value (effective_dpi img)" using d v by simp
  have factor: "int_truediv 150 (effective_dpi img) = Inr (PyFloat (fl (150 / d)))"
    using int_truediv_float [OF above nf] by (simp add: v)
  from scale_dimension_close [OF w d] obtain nw where
    nw: "scale_dimension (img_width img) (PyFloat (fl (150 / d))) = Inr nw"
      "nw = \<lfloor>fl (of_int (img_width img) * fl (150 / d))\<rfloor>"
      "\<bar>nw - \<lfloor>of_int (img_width img) * 150 / d\<rfloor>\<bar> \<le> 1"
    by blast
  from scale_dimension_close [OF ht d] obtain nh where
    nh: "scale_dimension (img_height img) (PyFloat (fl (150 / d))) = Inr nh"
      "nh = \<lfloor>fl (of_int (img_height img) * fl (150 / d))\<rfloor>"
      "\<bar>nh - \<lfloor>of_int (img_height img) * 150 / d\<rfloor>\<bar> \<le> 1"
    by blast
  have r: "downsample lib img = image_resize lib img (nw, nh)"
    using above factor nw(1) nh(1) by (rule downsample_above_threshold)
  have i: "nw \<le> \<lfloor>of_int (img_width img) * 150 / d\<rfloor> \<and> nh \<le> \<lfloor>of_int (img_height img) * 150 / d\<rfloor>"
    if "d = of_int k \<and> k < 2 ^ 20" for k
  proof -
    from that d have k: "200 < k" "k < 2 ^ 20" by simp_all
    from that show ?thesis
      using scale_dimension_integer_dpi [OF w k] scale_dimension_integer_dpi [OF ht k]
      by (simp add: nw(2) nh(2))
  qed
  from r nw(2,3) nh(2,3) i
  show "\<exists>nw nh. downsample lib img = image_resize lib img (nw, nh)
            \<and> nw = \<lfloor>fl (of_int (img_width img) * fl (150 / d))\<rfloor>
            \<and> nh = \<lfloor>fl (of_int (img_height img) * fl (150 / d))\<rfloor>
            \<and> \<bar>nw - \<lfloor>of_int (img_width img) * 150 / d\<rfloor>\<bar> \<le> 1
            \<and> \<bar>nh - \<lfloor>of_int (img_height img) * 150 / d\<rfloor>\<bar> \<le> 1
            \<and> (\<forall>k. d = of_int k \<and> k < 2 ^ 20
                  \<longrightarrow> nw \<le> \<lfloor>of_int (img_width img) * 150 / d\<rfloor>
                    \<and> nh \<le> \<lfloor>of_int (img_height img) * 150 / d\<rfloor>)"
    by blast
next
  assume h: "number_value (effective_dpi img) = 300 \<and> img_width img = 3000 \<and> img_height img = 2400"
  then have v: "number_value (effective_dpi img) = 300"
    and w: "img_width img = 3000" and ht: "img_height img = 2400" by simp_all
  have above: "200 < number_value (effective_dpi img)" by (simp add: v)
  show "downsample lib img = image_resize lib img (1500, 1200)"
  proof (cases "\<exists>q. effective_dpi img = PyFraction q")
    case True
    then obtain q where e: "effective_dpi img = PyFraction q" by blast
    with v have q: "q = 300" by (simp add: number_value_def)
    have f: "int_truediv 150 (effective_dpi img) = Inr (PyFraction (150 / 300))"
      unfolding e q by (rule int_truediv_fraction) simp
    have a: "scale_dimension (img_width img) (PyFraction (150 / 300)) = Inr 1500"
      unfolding w by (simp add: scale_dimension_fraction int_of_float_def)
    have b: "scale_dimension (img_height img) (PyFraction (150 / 300)) = Inr 1200"
      unfolding ht by (simp add: scale_dimension_fraction int_of_float_def)
    from above f a b show ?thesis by (rule downsample_above_threshold)
  next
    case False
    then have nf: "\<forall>q. effective_dpi img \<noteq> PyFraction q" by blast
    have f: "int_truediv 150 (effective_dpi img) = Inr (PyFloat (fl (150 / 300)))"
      using int_truediv_float [OF above nf] unfolding v .
    have a: "scale_dimension (img_width img) (PyFloat (fl (150 / 300))) = Inr 1500"
      unfolding w by (rule eval_3000)
    have b: "scale_dimension (img_height img) (PyFloat (fl (150 / 300))) = Inr 1200"
      unfolding ht by (rule eval_2400)
    from above f a b show ?thesis by (rule downsample_above_threshold)
  qed
qed

text \<open>
  C4 as stated fails for a 318 by 318 image whose \<open>dpi\<close> is the int 212 (the JFIF
  density of a JPEG): 318 * 150 / 212 is exactly 225, but the float nearest to 150/212
  lies below 150/212, the float product is just below 225, and the code resizes to 224
  by 224.
\<close>

theorem downsample_floor_counterexample:
  "effective_dpi img_318_at_212 = PyInt 212
   \<and> downsample toy_libs img_318_at_212
       = Inr (img_318_at_212\<lparr>img_width := 224, img_height := 224\<rparr>)
   \<and> \<lfloor>of_int (img_width img_318_at_212) * 150 / number_value (effective_dpi img_318_at_212)\<rfloor>
       = 225"
proof -
  have d: "effective_dpi img_318_at_212 = PyInt 212"
    by (simp add: effective_dpi_def img_318_at_212_def)
  have v: "number_value (effective_dpi img_318_at_212) = 212"
    by (simp add: d number_value_def)
  have wh: "img_width img_318_at_212 = 318" "img_height img_318_at_212 = 318"
    by (simp_all add: img_318_at_212_def)
  have nf: "\<forall>q. effective_dpi img_318_at_212 \<noteq> PyFraction q" by (simp add: d)
  have above: "200 < number_value (effective_dpi img_318_at_212)" by (simp add: v)
  have f: "int_truediv 150 (effective_dpi img_318_at_212) = Inr (PyFloat (fl (150 / 212)))"
    using int_truediv_float [OF above nf] unfolding v .
  have a: "scale_dimension (img_width img_318_at_212) (PyFloat (fl (150 / 212))) = Inr 224"
    unfolding wh by (rule eval_318)
  have b: "scale_dimension (img_height img_318_at_212) (PyFloat (fl (150 / 212))) = Inr 224"
    unfolding wh by (rule eval_318)
  have "downsample toy_libs img_318_at_212 = image_resize toy_libs img_318_at_212 (224, 224)"
    using above f a b by (rule downsample_above_threshold)
  then have "downsample toy_libs img_318_at_212
       = Inr (img_318_at_212\<lparr>img_width := 224, img_height := 224\<rparr>)"
    by (simp add: toy_libs_def toy_resize_def)
  moreover have "\<lfloor>of_int (img_width img_318_at_212) * 150
      / number_value (effective_dpi img_318_at_212)\<rfloor> = 225"
    unfolding v wh by simp
  ultimately show ?thesis using d by simp
qed

theorem downsample_dimensions_witness:
  "number_value (effective_dpi img_3000_at_300) = 300
   \<and> downsample toy_libs img_3000_at_300
       = Inr (img_3000_at_300\<lparr>img_width := 1500, img_height := 1200\<rparr>)
   \<and> img_dpi img_no_dpi = None
   \<and> effective_dpi img_no_dpi = PyInt 150
   \<and> downsample toy_libs img_no_dpi = Inr img_no_dpi
   \<and> effective_dpi img_318_at_212_rational = PyFraction 212
   \<and> downsample toy_libs img_318_at_212_rational
       = Inr (img_318_at_212_rational\<lparr>img_width := 225, img_height := 225\<rparr>)
   \<and> (\<exists>nw nh. downsample toy_libs img_318_at_212 = image_resize toy_libs img_318_at_212 (nw, nh)
         \<and> \<bar>nw - 225\<bar> \<le> 1 \<and> \<bar>nh - 225\<bar> \<le> 1 \<and> nw \<le> 225 \<and> nh \<le> 225)"
proof -
  have d3: "number_value (effective_dpi img_3000_at_300) = 300"
    by (simp add: effective_dpi_def img_3000_at_300_def number_value_def)
  have h3: "number_value (effective_dpi img_3000_at_300) = 300 \<and> img_width img_3000_at_300 = 3000
      \<and> img_height img_3000_at_300 = 2400"
    by (simp add: d3) (simp add: img_3000_at_300_def)
  from downsample_dimensions [of img_3000_at_300 toy_libs, THEN conjunct2, THEN conjunct2,
      THEN conjunct2, THEN conjunct2, rule_format, OF h3]
  have a: "downsample toy_libs img_3000_at_300
       = Inr (img_3000_at_300\<lparr>img_width := 1500, img_height := 1200\<rparr>)"
    by (simp add: toy_libs_def toy_resize_def)
  have n: "img_dpi img_no_dpi = None" by (simp add: img_no_dpi_def)
  from downsample_dimensions [of img_no_dpi toy_libs, THEN conjunct1, rule_format, OF n]
  have dn: "effective_dpi img_no_dpi = PyInt 150" .
  then have "number_value (effective_dpi img_no_dpi) \<le> 200" by (simp add: number_value_def)
  from downsample_dimensions [of img_no_dpi toy_libs, THEN conjunct2, THEN conjunct1,
      rule_format, OF this]
  have b: "downsample toy_libs img_no_dpi = Inr img_no_dpi" .
  have dr: "effective_dpi img_318_at_212_rational = PyFraction 212"
    by (simp add: effective_dpi_def img_318_at_212_rational_def)
  have whr: "img_width img_318_at_212_rational = 318" "img_height img_318_at_212_rational = 318"
    by (simp_all add: img_318_at_212_rational_def)
  have hr: "effective_dpi img_318_at_212_rational = PyFraction 212 \<and> (200::rat) < 212
      \<and> 0 \<le> img_width img_318_at_212_rational \<and> 0 \<le> img_height img_318_at_212_rational"
    by (simp add: dr whr)
  from downsample_dimensions [of img_318_at_212_rational toy_libs 212, THEN conjunct2,
      THEN conjunct2, THEN conjunct1, rule_format, OF hr]
  have "downsample toy_libs img_318_at_212_rational
      = image_resize toy_libs img_318_at_212_rational (225, 225)"
    unfolding whr by simp
  then have r: "downsample toy_libs img_318_at_212_rational
       = Inr (img_318_at_212_rational\<lparr>img_width := 225, img_height := 225\<rparr>)"
    by (simp add: toy_libs_def toy_resize_def)
  have d2: "effective_dpi img_318_at_212 = PyInt 212"
    by (simp add: effective_dpi_def img_318_at_212_def)
  have v2: "number_value (effective_dpi img_318_at_212) = 212"
    by (simp add: d2 number_value_def)
  have wh: "img_width img_318_at_212 = 318" "img_height img_318_at_212 = 318"
    by (simp_all add: img_318_at_212_def)
  have h2: "(\<forall>q. effective_dpi img_318_at_212 \<noteq> PyFraction q)
      \<and> number_value (effective_dpi img_318_at_212) = 212
      \<and> (200::rat) < 212 \<and> 0 \<le> img_width img_318_at_212
      \<and> img_width img_318_at_212 < 2 ^ 31 \<and> 0 \<le> img_height img_318_at_212
      \<and> img_height img_318_at_212 < 2 ^ 31"
    by (simp add: d2 wh number_value_def)
  have k: "(212::rat) = of_int 212 \<and> (212::int) < 2 ^ 20" by simp
  from downsample_dimensions [of img_318_at_212 toy_libs _ 212, THEN conjunct2, THEN conjunct2,
      THEN conjunct2, THEN conjunct1, rule_format, OF h2]
  obtain nw nh where c: "downsample toy_libs img_318_at_212 = image_resize toy_libs img_318_at_212 (nw, nh)"
    "\<bar>nw - \<lfloor>of_int (img_width img_318_at_212) * 150 / (212::rat)\<rfloor>\<bar> \<le> 1"
    "\<bar>nh - \<lfloor>of_int (img_height img_318_at_212) * 150 / (212::rat)\<rfloor>\<bar> \<le> 1"
    "\<forall>k. (212::rat) = of_int k \<and> k < 2 ^ 20
        \<longrightarrow> nw \<le> \<lfloor>of_int (img_width img_318_at_212) * 150 / (212::rat)\<rfloor>
          \<and> nh \<le> \<lfloor>of_int (img_height img_318_at_212) * 150 / (212::rat)\<rfloor>"
    by blast
  from c(4) k have c4: "nw \<le> \<lfloor>of_int (img_width img_318_at_212) * 150 / (212::rat)\<rfloor>
          \<and> nh \<le> \<lfloor>of_int (img_height img_318_at_212) * 150 / (212::rat)\<rfloor>"
    by blast
  have e: "\<lfloor>of_int (img_width img_318_at_212) * 150 / (212::rat)\<rfloor> = 225"
    "\<lfloor>of_int (img_height img_318_at_212) * 150 / (212::rat)\<rfloor> = 225"
    by (simp_all add: wh)
  from c(1,2,3) c4 have "\<exists>nw nh. downsample toy_libs img_318_at_212 = image_resize toy_libs img_318_at_212 (nw, nh)
         \<and> \<bar>nw - 225\<bar> \<le> 1 \<and> \<bar>nh - 225\<bar> \<le> 1 \<and> nw \<le> 225 \<and> nh \<le> 225"
    unfolding e by blast
  with d3 a n dn b dr r show ?thesis by simp
qed

text \<open>
  C10. Nothing stands between the truncation of lines 141--142 and the call of
  \<open>image.resize\<close> at line 143, and the truncation has no lower bound: whenever the
  effective DPI exceeds 200, of whatever type, an image one pixel wide (or high) is
  resized to width (or height) 0; a 1 by 1 image, at 300 DPI for example, is resized to
  (0, 0).
\<close>

theorem zero_dimension_reaches_resize:
  "(200 < number_value (effective_dpi img) \<and> img_width img = 1
        \<and> 0 \<le> img_height img \<and> img_height img < 2 ^ 31
      \<longrightarrow> (\<exists>nh. downsample lib img = image_resize lib img (0, nh)))
   \<and> (200 < number_value (effective_dpi img) \<and> img_height img = 1
        \<and> 0 \<le> img_width img \<and> img_width img < 2 ^ 31
      \<longrightarrow> (\<exists>nw. downsample lib img = image_resize lib img (nw, 0)))
   \<and> (200 < number_value (effective_dpi img) \<and> img_width img = 1 \<and> img_height img = 1
      \<longrightarrow> downsample lib img = image_resize lib img (0, 0))"
proof -
  have factor: "\<exists>factor. int_truediv 150 (effective_dpi img) = Inr factor
      \<and> scale_dimension 1 factor = Inr 0
      \<and> (\<forall>n. 0 \<le> n \<and> n < 2 ^ 31 \<longrightarrow> (\<exists>m. scale_dimension n factor = Inr m))"
    if above: "200 < number_value (effective_dpi img)"
  proof (cases "\<exists>q. effective_dpi img = PyFraction q")
    case True
    then obtain q where e: "effective_dpi img = PyFraction q" by blast
    with above have q: "200 < q" by (simp add: number_value_def)
    have "int_truediv 150 (effective_dpi img) = Inr (PyFraction (150 / q))"
      unfolding e using q by (rule int_truediv_fraction)
    moreover have "scale_dimension 1 (PyFraction (150 / q)) = Inr 0"
      using q by (rule scale_one_is_zero_exact)
    moreover have "\<forall>n. 0 \<le> n \<and> n < 2 ^ 31 \<longrightarrow> (\<exists>m. scale_dimension n (PyFraction (150 / q)) = Inr m)"
      by (simp add: scale_dimension_fraction)
    ultimately show ?thesis by blast
  next
    case False
    then have nf: "\<forall>q. effective_dpi img \<noteq> PyFraction q" by blast
    define d where "d = number_value (effective_dpi img)"
    have d: "200 < d" using above by (simp add: d_def)
    have "int_truediv 150 (effective_dpi img) = Inr (PyFloat (fl (150 / d)))"
      using int_truediv_float [OF above nf] by (simp add: d_def)
    moreover have "scale_dimension 1 (PyFloat (fl (150 / d))) = Inr 0"
      using d by (rule scale_one_is_zero)
    moreover have "\<forall>n. 0 \<le> n \<and> n < 2 ^ 31 \<longrightarrow> (\<exists>m. scale_dimension n (PyFloat (fl (150 / d))) = Inr m)"
      using scale_dimension_close [OF _ _ d] by blast
    ultimately show ?thesis by blast
  qed
  show ?thesis
  proof (intro conjI impI)
    assume h: "200 < number_value (effective_dpi img) \<and> img_width img = 1
        \<and> 0 \<le> img_height img \<and> img_height img < 2 ^ 31"
    then have above: "200 < number_value (effective_dpi img)" and w: "img_width img = 1"
      and ht: "0 \<le> img_height img \<and> img_height img < 2 ^ 31" by simp_all
    from factor [OF above] obtain f where f: "int_truediv 150 (effective_dpi img) = Inr f"
      "scale_dimension 1 f = Inr 0"
      "\<forall>n. 0 \<le> n \<and> n < 2 ^ 31 \<longrightarrow> (\<exists>m. scale_dimension n f = Inr m)" by blast
    from f(3) ht obtain nh where nh: "scale_dimension (img_height img) f = Inr nh" by blast
    have "scale_dimension (img_width img) f = Inr 0" unfolding w by (rule f(2))
    from downsample_above_threshold [OF above f(1) this nh]
    show "\<exists>nh. downsample lib img = image_resize lib img (0, nh)" by blast
  next
    assume h: "200 < number_value (effective_dpi img) \<and> img_height img = 1
        \<and> 0 \<le> img_width img \<and> img_width img < 2 ^ 31"
    then have above: "200 < number_value (effective_dpi img)" and ht: "img_height img = 1"
      and w: "0 \<le> img_width img \<and> img_width img < 2 ^ 31" by simp_all
    from factor [OF above] obtain f where f: "int_truediv 150 (effective_dpi img) = Inr f"
      "scale_dimension 1 f = Inr 0"
      "\<forall>n. 0 \<le> n \<and> n < 2 ^ 31 \<longrightarrow> (\<exists>m. scale_dimension n f = Inr m)" by blast
    from f(3) w obtain nw where nw: "scale_dimension (img_width img) f = Inr nw" by blast
    have "scale_dimension (img_height img) f = Inr 0" unfolding ht by (rule f(2))
    from downsample_above_threshold [OF above f(1) nw this]
    show "\<exists>nw. downsample lib img = image_resize lib img (nw, 0)" by blast
  next
    assume h: "200 < number_value (effective_dpi img) \<and> img_width img = 1 \<and> img_height img = 1"
    then have above: "200 < number_value (effective_dpi img)" and w: "img_width img = 1"
      and ht: "img_height img = 1" by simp_all
    from factor [OF above] obtain f where f: "int_truediv 150 (effective_dpi img) = Inr f"
      "scale_dimension 1 f = Inr 0" by blast
    have a: "scale_dimension (img_width img) f = Inr 0" unfolding w by (rule f(2))
    have b: "scale_dimension (img_height img) f = Inr 0" unfolding ht by (rule f(2))
    from downsample_above_threshold [OF above f(1) a b]
    show "downsample lib img = image_resize lib img (0, 0)" .
  qed
qed

theorem zero_dimension_reaches_resize_witness:
  "number_value (effective_dpi img_1_at_300) = 300
   \<and> img_width img_1_at_300 = 1
   \<and> img_height img_1_at_300 = 1
   \<and> downsample toy_libs img_1_at_300 = image_resize toy_libs img_1_at_300 (0, 0)
   \<and> downsample toy_libs img_1_at_300 = Inl (LibraryError ''ValueError'')"
proof -
  have d: "number_value (effective_dpi img_1_at_300) = 300"
    by (simp add: effective_dpi_def img_1_at_300_def number_value_def)
  have wh: "img_width img_1_at_300 = 1" "img_height img_1_at_300 = 1"
    by (simp_all add: img_1_at_300_def)
  have h: "200 < number_value (effective_dpi img_1_at_300) \<and> img_width img_1_at_300 = 1
      \<and> img_height img_1_at_300 = 1"
    by (simp add: d wh)
  from zero_dimension_reaches_resize [of img_1_at_300 toy_libs, THEN conjunct2, THEN conjunct2,
      rule_format, OF h]
  have r: "downsample toy_libs img_1_at_300 = image_resize toy_libs img_1_at_300 (0, 0)" .
  have "image_resize toy_libs img_1_at_300 (0, 0) = Inl (LibraryError ''ValueError'')"
    by (simp add: toy_libs_def toy_resize_def)
  with r d wh show ?thesis by simp
qed

subsection \<open>The loops of the raster branch\<close>

lemma images_loop_append:
  "images_loop lib doc (xs @ ys) =
     (case images_loop lib doc xs of Inl e \<Rightarrow> Inl e | Inr doc' \<Rightarrow> images_loop lib doc' ys)"
  by (induction xs arbitrary: doc) (auto split: sum.splits)

lemma pages_loop_append:
  "pages_loop lib doc (xs @ ys) =
     (case pages_loop lib doc xs of Inl e \<Rightarrow> Inl e | Inr doc' \<Rightarrow> pages_loop lib doc' ys)"
  by (induction xs arbitrary: doc) (auto split: sum.splits)

lemma upt_split:
  assumes "k < n"
  shows "[0 ..< n] = [0 ..< k] @ k # [Suc k ..< n]"
proof -
  have "[0 ..< n] = [0 ..< k + (n - k)]" using assms by simp
  also have "\<dots> = [0 ..< k] @ [k ..< k + (n - k)]" by (rule upt_add_eq_append) simp
  also have "[k ..< k + (n - k)] = k # [Suc k ..< k + (n - k)]"
    using assms by (intro upt_conv_Cons) simp
  finally show ?thesis using assms by simp
qed

lemma decode_failure_process_image:
  "doc_extract_image lib doc xref = Inr img_bytes \<Longrightarrow> Image_open lib img_bytes = Inl e
     \<Longrightarrow> process_image lib doc xref = Inl e"
  by (simp add: process_image_def)

lemma scanned_compress_output:
  "\<not> fst (classify lib data) \<Longrightarrow>
     compress_output lib data =
       (case raster_branch lib data of Inl e \<Rightarrow> Inl e | Inr doc \<Rightarrow> doc_save lib doc 4 True)"
  by (cases "classify lib data")
     (auto simp: compress_output_def compress_branches_def final_save_def split: sum.splits)

text \<open>
  C5 (as amended). When an embedded image fails to decode in the raster branch, the
  exception that \<open>Image.open\<close> raised leaves the handler unchanged: the images before
  it have been replaced in the working copy only, the loops stop, the final save and the
  database write are never reached, and nothing is returned or stored. No image is
  skipped. The exception is the decoder's own; the handler wraps nothing and records no
  image index.
\<close>

theorem decode_failure_aborts:
  assumes "\<not> fst (classify lib (up_content f))" and "up_filename f \<noteq> []"
    and "fitz_open lib (up_content f) = Inr doc0"
    and "page_index < doc_len lib doc0"
    and "pages_loop lib doc0 [0 ..< page_index] = Inr doc1"
    and "doc_get_images lib doc1 page_index = Inr (before @ xref # rest)"
    and "images_loop lib doc1 before = Inr doc2"
    and "doc_extract_image lib doc2 xref = Inr img_bytes"
    and "Image_open lib img_bytes = Inl e"
  shows "process_pdf_compress lib db (Some f) = (Inl e, db)"
proof -
  have "process_image lib doc2 xref = Inl e"
    using assms(8,9) by (rule decode_failure_process_image)
  then have "images_loop lib doc1 (before @ xref # rest) = Inl e"
    using assms(7) by (simp add: images_loop_append)
  then have p: "pages_loop lib doc1 (page_index # [Suc page_index ..< doc_len lib doc0]) = Inl e"
    using assms(6) by simp
  have "[0 ..< doc_len lib doc0] = [0 ..< page_index] @ page_index # [Suc page_index ..< doc_len lib doc0]"
    using assms(4) by (rule upt_split)
  then have "pages_loop lib doc0 [0 ..< doc_len lib doc0] = Inl e"
    using assms(5) p by (simp add: pages_loop_append)
  then have "raster_branch lib (up_content f) = Inl e"
    using assms(3) by (simp add: raster_branch_def)
  then have "compress_output lib (up_content f) = Inl e"
    using assms(1) by (simp add: scanned_compress_output)
  then show ?thesis
    using assms(2) by (simp add: process_pdf_compress_def)
qed

lemma one_page_fields:
  "pikepdf_open one_page_libs = pikepdf_open toy_libs"
  "pdf_pages one_page_libs = pdf_pages toy_libs"
  "page_has_contents one_page_libs = page_has_contents toy_libs"
  "fitz_open one_page_libs = fitz_open toy_libs"
  "doc_len one_page_libs doc = 1"
  "doc_get_images one_page_libs doc i =
     (if i = 0 then Inr [0 ..< length doc] else Inl (LibraryError ''IndexError''))"
  "doc_extract_image one_page_libs = doc_extract_image toy_libs"
  "doc_update_image one_page_libs = doc_update_image toy_libs"
  "doc_save one_page_libs = doc_save toy_libs"
  "Image_open one_page_libs = Image_open toy_libs"
  "image_resize one_page_libs = image_resize toy_libs"
  "image_save one_page_libs = image_save toy_libs"
  by (simp_all add: one_page_libs_def)

lemma bad_stream: "Image_open one_page_libs [3, 0, 0, 0] = Inl (LibraryError ''UnidentifiedImageError'')"
  by (simp add: one_page_fields toy_fields toy_decode_def)

lemma one_page_classify:
  "classify one_page_libs [3, 0, 0, 0, 2, 150, 8, 8] = (False, Some [3, 0, 0, 0, 2, 150, 8, 8])"
  "classify one_page_libs [2, 150, 8, 8, 3, 0, 0, 0] = (False, Some [2, 150, 8, 8, 3, 0, 0, 0])"
  by (simp_all add: classify_def inspect_pdf_def one_page_fields toy_fields)

lemma one_page_open:
  "fitz_open one_page_libs [3, 0, 0, 0, 2, 150, 8, 8] = Inr [[3, 0, 0, 0], [2, 150, 8, 8]]"
  "fitz_open one_page_libs [2, 150, 8, 8, 3, 0, 0, 0] = Inr [[2, 150, 8, 8], [3, 0, 0, 0]]"
  by (simp_all add: one_page_fields toy_fields)

lemma one_page_images:
  "doc_get_images one_page_libs [a, b] 0 = Inr [0, 1]"
  by (simp add: one_page_fields upt_rec)

lemma one_page_good_image:
  "process_image one_page_libs [[2, 150, 8, 8], [3, 0, 0, 0]] 0 = Inr [[85, 0, 8, 8], [3, 0, 0, 0]]"
  by (simp add: process_image_def one_page_fields toy_fields toy_decode_def toy_encode_def
      downsample_def Let_def effective_dpi_def number_value_def DPI_THRESHOLD_def TARGET_DPI_def save_arguments_def
      choose_compression_def JPEG_QUALITY_def)

lemma one_page_bad_first:
  "process_image one_page_libs [[3, 0, 0, 0], [2, 150, 8, 8]] 0 = Inl (LibraryError ''UnidentifiedImageError'')"
  by (simp add: process_image_def one_page_fields toy_fields toy_decode_def)

lemma one_page_bad_second:
  "process_image one_page_libs [[85, 0, 8, 8], [3, 0, 0, 0]] (Suc 0) = Inl (LibraryError ''UnidentifiedImageError'')"
  by (simp add: process_image_def one_page_fields toy_fields toy_decode_def)

lemma one_page_raster:
  "raster_branch one_page_libs [3, 0, 0, 0, 2, 150, 8, 8] = Inl (LibraryError ''UnidentifiedImageError'')"
  "raster_branch one_page_libs [2, 150, 8, 8, 3, 0, 0, 0] = Inl (LibraryError ''UnidentifiedImageError'')"
  by (simp_all add: raster_branch_def one_page_open one_page_fields(5) one_page_images
      one_page_good_image one_page_bad_first one_page_bad_second)

text \<open>
  C5 as stated fails on the kind of the error: a document whose first image does not
  decode and a document whose second image does not decode end in the same exception,
  the decoder's, which is no CompressionError and names no index.
\<close>

theorem decode_error_names_no_index:
  "doc_get_images one_page_libs [[3, 0, 0, 0], [2, 150, 8, 8]] 0 = Inr [0, 1]
   \<and> doc_get_images one_page_libs [[2, 150, 8, 8], [3, 0, 0, 0]] 0 = Inr [0, 1]
   \<and> Image_open one_page_libs [3, 0, 0, 0] = Inl (LibraryError ''UnidentifiedImageError'')
   \<and> process_pdf_compress one_page_libs []
        (Some \<lparr>up_filename = ''a.pdf'', up_content = [3, 0, 0, 0, 2, 150, 8, 8]\<rparr>)
       = (Inl (LibraryError ''UnidentifiedImageError''), [])
   \<and> process_pdf_compress one_page_libs []
        (Some \<lparr>up_filename = ''b.pdf'', up_content = [2, 150, 8, 8, 3, 0, 0, 0]\<rparr>)
       = (Inl (LibraryError ''UnidentifiedImageError''), [])"
  by (simp add: one_page_images bad_stream process_pdf_compress_def scanned_compress_output
      one_page_classify one_page_raster)

theorem decode_failure_aborts_witness:
  "\<not> fst (classify one_page_libs [2, 150, 8, 8, 3, 0, 0, 0])
   \<and> fitz_open one_page_libs [2, 150, 8, 8, 3, 0, 0, 0] = Inr [[2, 150, 8, 8], [3, 0, 0, 0]]
   \<and> doc_get_images one_page_libs [[2, 150, 8, 8], [3, 0, 0, 0]] 0 = Inr [0, 1]
   \<and> images_loop one_page_libs [[2, 150, 8, 8], [3, 0, 0, 0]] [0] = Inr [[85, 0, 8, 8], [3, 0, 0, 0]]
   \<and> doc_extract_image one_page_libs [[85, 0, 8, 8], [3, 0, 0, 0]] 1 = Inr [3, 0, 0, 0]
   \<and> Image_open one_page_libs [3, 0, 0, 0] = Inl (LibraryError ''UnidentifiedImageError'')
   \<and> process_pdf_compress one_page_libs []
        (Some \<lparr>up_filename = ''b.pdf'', up_content = [2, 150, 8, 8, 3, 0, 0, 0]\<rparr>)
       = (Inl (LibraryError ''UnidentifiedImageError''), [])"
proof -
  let ?f = "\<lparr>up_filename = ''b.pdf'', up_content = [2, 150, 8, 8, 3, 0, 0, 0]\<rparr>"
  let ?doc0 = "[[2, 150, 8, 8], [3, 0, 0, 0 :: nat]]"
  let ?doc2 = "[[85, 0, 8, 8], [3, 0, 0, 0 :: nat]]"
  have a1: "\<not> fst (classify one_page_libs (up_content ?f))" by (simp add: one_page_classify)
  have a2: "up_filename ?f \<noteq> []" by simp
  have a3: "fitz_open one_page_libs (up_content ?f) = Inr ?doc0" by (simp add: one_page_open)
  have a4: "0 < doc_len one_page_libs ?doc0" by (simp add: one_page_fields)
  have a5: "pages_loop one_page_libs ?doc0 [0 ..< 0] = Inr ?doc0" by simp
  have a6: "doc_get_images one_page_libs ?doc0 0 = Inr ([0] @ 1 # [])" by (simp add: one_page_images)
  have a7: "images_loop one_page_libs ?doc0 [0] = Inr ?doc2" by (simp add: one_page_good_image)
  have a8: "doc_extract_image one_page_libs ?doc2 1 = Inr [3, 0, 0, 0]"
    by (simp add: one_page_fields toy_fields)
  from decode_failure_aborts [OF a1 a2 a3 a4 a5 a6 a7 a8 bad_stream, of "[]"] a1 a3 a6 a7 a8 bad_stream
  show ?thesis by simp
qed

lemma process_image_without_update:
  assumes "\<forall>d x s. \<exists>e. doc_update_image lib d x s = Inl e"
  shows "\<exists>e. process_image lib doc xref = Inl e"
proof (cases "process_image lib doc xref")
  case (Inl e)
  then show ?thesis by blast
next
  case (Inr doc')
  then obtain stream where "doc_update_image lib doc xref stream = Inr doc'"
    by (auto simp: process_image_def Let_def split: sum.splits)
  with assms show ?thesis by (metis sum.distinct(1))
qed

lemma images_loop_without_update:
  assumes "\<forall>d x s. \<exists>e. doc_update_image lib d x s = Inl e"
    and "images_loop lib doc images = Inr doc'"
  shows "images = [] \<and> doc' = doc"
proof (cases images)
  case Nil
  with assms(2) show ?thesis by simp
next
  case (Cons xref rest)
  from process_image_without_update [OF assms(1)] obtain e where
    "process_image lib doc xref = Inl e" by blast
  with assms(2) Cons show ?thesis by simp
qed

lemma pages_loop_without_update:
  assumes "\<forall>d x s. \<exists>e. doc_update_image lib d x s = Inl e"
  shows "pages_loop lib doc pages = Inr doc'
     \<Longrightarrow> doc' = doc \<and> (\<forall>i\<in>set pages. doc_get_images lib doc i = Inr [])"
proof (induction pages)
  case Nil
  then show ?case by simp
next
  case (Cons page_index pages)
  from Cons.prems obtain images doc1 where g: "doc_get_images lib doc page_index = Inr images"
    and s: "images_loop lib doc images = Inr doc1"
    and r: "pages_loop lib doc1 pages = Inr doc'"
    by (auto split: sum.splits)
  from images_loop_without_update [OF assms s] have "images = []" "doc1 = doc" by simp_all
  with g r Cons.IH show ?case by simp
qed

text \<open>
  C8 (what the code does instead). Line 150 calls \<open>doc.update_image\<close> on the fitz
  document. PyMuPDF's Document has no method of that name (an image is replaced by
  \<open>replace_image\<close> of a page, a stream by \<open>update_stream\<close> of the document), so the
  attribute lookup raises wherever line 150 is reached. Given that, the raster branch
  returns only for a document none of whose pages lists an image, and returns it as it
  was opened; for a document classified Scanned with an image on some page the handler
  raises and stores nothing. No image is replaced in place, and there is no output
  document whose pages could be counted.
\<close>

theorem raster_branch_without_update_image:
  assumes "\<forall>d x s. \<exists>e. doc_update_image lib d x s = Inl e"
  shows "(raster_branch lib data = Inr doc'
            \<longrightarrow> fitz_open lib data = Inr doc'
              \<and> (\<forall>i<doc_len lib doc'. doc_get_images lib doc' i = Inr []))
         \<and> (\<not> fst (classify lib (up_content f)) \<and> up_filename f \<noteq> []
              \<and> fitz_open lib (up_content f) = Inr doc0 \<and> page_index < doc_len lib doc0
              \<and> doc_get_images lib doc0 page_index = Inr (xref # rest)
            \<longrightarrow> (\<exists>e. process_pdf_compress lib db (Some f) = (Inl e, db)))"
proof -
  have returns: "fitz_open lib bs = Inr d' \<and> (\<forall>i<doc_len lib d'. doc_get_images lib d' i = Inr [])"
    if "raster_branch lib bs = Inr d'" for bs d'
  proof -
    from that obtain d0 where o: "fitz_open lib bs = Inr d0"
      and l: "pages_loop lib d0 [0 ..< doc_len lib d0] = Inr d'"
      by (auto simp: raster_branch_def split: sum.splits)
    from pages_loop_without_update [OF assms l] o show ?thesis by simp
  qed
  have first: "raster_branch lib data = Inr doc'
      \<longrightarrow> fitz_open lib data = Inr doc'
        \<and> (\<forall>i<doc_len lib doc'. doc_get_images lib doc' i = Inr [])"
    using returns by blast
  have second: "\<not> fst (classify lib (up_content f)) \<and> up_filename f \<noteq> []
        \<and> fitz_open lib (up_content f) = Inr doc0 \<and> page_index < doc_len lib doc0
        \<and> doc_get_images lib doc0 page_index = Inr (xref # rest)
      \<longrightarrow> (\<exists>e. process_pdf_compress lib db (Some f) = (Inl e, db))"
  proof (rule impI)
    assume h: "\<not> fst (classify lib (up_content f)) \<and> up_filename f \<noteq> []
        \<and> fitz_open lib (up_content f) = Inr doc0 \<and> page_index < doc_len lib doc0
        \<and> doc_get_images lib doc0 page_index = Inr (xref # rest)"
    have "\<exists>e. raster_branch lib (up_content f) = Inl e"
    proof (cases "raster_branch lib (up_content f)")
      case (Inl e)
      then show ?thesis by blast
    next
      case (Inr d')
      from returns [OF Inr] h have "d' = doc0" "doc_get_images lib doc0 page_index = Inr []"
        by auto
      with h show ?thesis by simp
    qed
    then obtain e where "raster_branch lib (up_content f) = Inl e" by blast
    with h have "compress_output lib (up_content f) = Inl e"
      by (simp add: scanned_compress_output)
    with h show "\<exists>e. process_pdf_compress lib db (Some f) = (Inl e, db)"
      by (simp add: process_pdf_compress_def)
  qed
  from first second show ?thesis by (rule conjI)
qed

lemma no_update_image_fields:
  "pikepdf_open no_update_image_libs = pikepdf_open toy_libs"
  "pdf_pages no_update_image_libs = pdf_pages toy_libs"
  "page_has_contents no_update_image_libs = page_has_contents toy_libs"
  "fitz_open no_update_image_libs = fitz_open toy_libs"
  "doc_len no_update_image_libs = doc_len toy_libs"
  "doc_get_images no_update_image_libs = doc_get_images toy_libs"
  "doc_extract_image no_update_image_libs = doc_extract_image toy_libs"
  "doc_update_image no_update_image_libs doc x s = Inl (LibraryError ''AttributeError'')"
  "doc_save no_update_image_libs = doc_save toy_libs"
  "Image_open no_update_image_libs = Image_open toy_libs"
  "image_resize no_update_image_libs = image_resize toy_libs"
  "image_save no_update_image_libs = image_save toy_libs"
  by (simp_all add: no_update_image_libs_def)

lemma no_update_image_classify:
  "classify no_update_image_libs [0, 150, 100, 100] = (False, Some [0, 150, 100, 100])"
  by (simp add: classify_def inspect_pdf_def no_update_image_fields toy_fields)

lemma no_update_image_step:
  "process_image no_update_image_libs [[0, 150, 100, 100]] 0 = Inl (LibraryError ''AttributeError'')"
  by (simp add: process_image_def no_update_image_fields toy_fields toy_decode_def toy_encode_def
      downsample_def Let_def effective_dpi_def number_value_def DPI_THRESHOLD_def TARGET_DPI_def
      save_arguments_def choose_compression_def JPEG_QUALITY_def)

lemma no_update_image_raster:
  "raster_branch no_update_image_libs [0, 150, 100, 100] = Inl (LibraryError ''AttributeError'')"
  by (simp add: raster_branch_def no_update_image_fields toy_fields no_update_image_step)

theorem raster_branch_without_update_image_witness:
  "\<not> fst (classify no_update_image_libs [0, 150, 100, 100])
   \<and> fitz_open no_update_image_libs [0, 150, 100, 100] = Inr [[0, 150, 100, 100]]
   \<and> doc_get_images no_update_image_libs [[0, 150, 100, 100]] 0 = Inr [0]
   \<and> doc_update_image no_update_image_libs [[0, 150, 100, 100]] 0 [4, 0, 100, 100]
       = Inl (LibraryError ''AttributeError'')
   \<and> process_pdf_compress no_update_image_libs []
        (Some \<lparr>up_filename = ''s.pdf'', up_content = [0, 150, 100, 100]\<rparr>)
       = (Inl (LibraryError ''AttributeError''), [])"
proof -
  let ?f = "\<lparr>up_filename = ''s.pdf'', up_content = [0, 150, 100, 100]\<rparr>"
  have c: "\<forall>d x s. \<exists>e. doc_update_image no_update_image_libs d x s = Inl e"
    by (simp add: no_update_image_fields)
  have h: "\<not> fst (classify no_update_image_libs (up_content ?f)) \<and> up_filename ?f \<noteq> []
      \<and> fitz_open no_update_image_libs (up_content ?f) = Inr [[0, 150, 100, 100]]
      \<and> 0 < doc_len no_update_image_libs [[0, 150, 100, 100]]
      \<and> doc_get_images no_update_image_libs [[0, 150, 100, 100]] 0 = Inr (0 # [])"
    by (simp add: no_update_image_classify no_update_image_fields toy_fields)
  from raster_branch_without_update_image [OF c, THEN conjunct2, rule_format, OF h, of "[]"]
  obtain e where e: "process_pdf_compress no_update_image_libs [] (Some ?f) = (Inl e, [])"
    by blast
  have "process_pdf_compress no_update_image_libs [] (Some ?f)
      = (Inl (LibraryError ''AttributeError''), [])"
    by (simp add: process_pdf_compress_def scanned_compress_output no_update_image_classify
        no_update_image_raster)
  with e h show ?thesis by (simp add: no_update_image_fields)
qed

end
